theory Spec2Isabelle
  imports Main "HOL-Library.Char_ord" "HOL-Library.List_Lexorder" "HOL-Library.AList"
begin

section \<open>Python strings and their built-in operations\<close>

text \<open>
  A Python \<open>str\<close> is a sequence of code points. It is modelled as a \<^typ>\<open>string\<close>,
  one \<^typ>\<open>char\<close> per code point, so the development covers text whose code points lie
  below 256 (this includes the Buckwalter transliteration in which the keys and tags of
  both input files are written). The character classes below are CPython's Unicode
  classes restricted to that range. Strings are ordered by code point, lexicographically,
  as Python compares them.
\<close>

text \<open>\<open>str.isspace\<close> on one character; it is also the class \<open>\s\<close> of \<open>re\<close>.\<close>

definition isspace :: "char \<Rightarrow> bool" where
  "isspace c = (of_char c \<in> set [9, 10, 11, 12, 13, 28, 29, 30, 31, 32, 133, 160 :: nat])"

text \<open>\<open>s.lstrip()\<close>, \<open>s.rstrip()\<close>, \<open>s.strip()\<close> with no argument.\<close>

definition lstrip :: "string \<Rightarrow> string" where
  "lstrip s = dropWhile isspace s"

definition rstrip :: "string \<Rightarrow> string" where
  "rstrip s = rev (dropWhile isspace (rev s))"

definition strip :: "string \<Rightarrow> string" where
  "strip s = rstrip (lstrip s)"

text \<open>\<open>s.lstrip(chars)\<close>: every leading character that occurs in \<open>chars\<close> is removed.\<close>

definition lstrip_chars :: "string \<Rightarrow> string \<Rightarrow> string" where
  "lstrip_chars chars s = dropWhile (\<lambda>c. c \<in> set chars) s"

text \<open>\<open>s.startswith(p)\<close>.\<close>

definition startswith :: "string \<Rightarrow> string \<Rightarrow> bool" where
  "startswith s p = (take (length p) s = p)"

text \<open>
  \<open>s.split(sep)\<close> for a one-character separator (every call site passes one): the
  fields between the occurrences of \<open>sep\<close>; the result is never empty. The second
  argument of \<open>split_from\<close> is the field read so far.
\<close>

fun split_from :: "char \<Rightarrow> string \<Rightarrow> string \<Rightarrow> string list" where
  "split_from sep cur [] = [cur]"
| "split_from sep cur (c # cs) =
     (if c = sep then cur # split_from sep [] cs else split_from sep (cur @ [c]) cs)"

definition split :: "char \<Rightarrow> string \<Rightarrow> string list" where
  "split sep s = split_from sep [] s"

text \<open>\<open>s.split(sep, 1)\<close>: at most one split, at the first occurrence of \<open>sep\<close>.\<close>

definition split1 :: "char \<Rightarrow> string \<Rightarrow> string list" where
  "split1 sep s =
     (if sep \<in> set s
      then [takeWhile (\<lambda>c. c \<noteq> sep) s, drop 1 (dropWhile (\<lambda>c. c \<noteq> sep) s)]
      else [s])"

text \<open>\<open>sep.join(xs)\<close>.\<close>

fun join :: "string \<Rightarrow> string list \<Rightarrow> string" where
  "join sep [] = []"
| "join sep [x] = x"
| "join sep (x # y # ys) = x @ sep @ join sep (y # ys)"

section \<open>Attribute-map codec (both scripts)\<close>

text \<open>
  A \<open>dict\<close> whose keys are enumerated is an association list with distinct keys, in
  insertion order; \<open>d[k] = v\<close> is \<^const>\<open>AList.update\<close> (an existing key keeps its place,
  a new key goes last, as in Python), \<open>d.get(k)\<close> is \<^const>\<open>map_of\<close> and \<open>d1 == d2\<close> is
  equality of the two \<^const>\<open>map_of\<close>.
\<close>

type_synonym pydict = "(string \<times> string) list"

text \<open>
  Body of the loop of \<open>parse_feats\<close> and \<open>parse_misc\<close>:
  \<^verbatim>\<open>if "=" in part: k, v = part.split("=", 1); d[k] = v\<close>.
  Under the guard the split has exactly two elements, so the unpacking cannot fail.
\<close>

definition add_part :: "pydict \<Rightarrow> string \<Rightarrow> pydict" where
  "add_part d part =
     (if CHR ''='' \<in> set part
      then (case split1 CHR ''='' part of [k, v] \<Rightarrow> AList.update k v d | _ \<Rightarrow> d)
      else d)"

definition parse_feats :: "string \<Rightarrow> pydict" where
  "parse_feats feats =
     (let feats = strip feats in
      if feats = '''' \<or> feats = ''_'' then []
      else foldl add_part [] (split CHR ''|'' feats))"

definition parse_misc :: "string \<Rightarrow> pydict" where
  "parse_misc misc =
     (let misc = strip misc in
      if misc = '''' \<or> misc = ''_'' then []
      else foldl add_part [] (split CHR ''|'' misc))"

text \<open>
  \<open>format_feats\<close>: \<^verbatim>\<open>"|".join(f"{k}={d[k]}" for k in sorted(d.keys()))\<close>. The key \<open>k\<close>
  ranges over the keys of \<open>d\<close> itself, so \<open>d[k]\<close> never misses.
\<close>

definition format_feats :: "pydict \<Rightarrow> string" where
  "format_feats d =
     (if d = [] then ''_''
      else join ''|'' (map (\<lambda>k. k @ ''='' @ the (map_of d k)) (sort (map fst d))))"

section \<open>Script 1: synchronising the tree with the morphological analyses\<close>

subsection \<open>The lookup builder\<close>

text \<open>
  The class \<open>\w\<close> of \<open>re\<close> on a \<open>str\<close> pattern: \<open>str.isalnum\<close> or the underscore.
  Below 256 these are the ASCII letters and digits, the underscore, the superscript
  digits and vulgar fractions, and the Latin-1 letters.
\<close>

definition isword :: "char \<Rightarrow> bool" where
  "isword c =
     (let n = (of_char c :: nat) in
      (48 \<le> n \<and> n \<le> 57) \<or> (65 \<le> n \<and> n \<le> 90) \<or> n = 95 \<or> (97 \<le> n \<and> n \<le> 122)
      \<or> n \<in> set [170, 178, 179, 181, 185, 186, 188, 189, 190]
      \<or> (192 \<le> n \<and> n \<le> 214) \<or> (216 \<le> n \<and> n \<le> 246) \<or> 248 \<le> n)"

text \<open>
  \<^verbatim>\<open>re.search(rf"\b{re.escape(key)}:([^\s]+)", line)\<close>, group 1. The scan tries every
  position from the left. \<open>prev\<close> tells whether the character before the position is a
  word character (false at the start): \<open>\b\<close> holds where that differs from the
  character at the position. The escaped key matches itself; the greedy group takes the
  whole run of non-whitespace after the colon and must not be empty. At the end of
  the line nothing can match, as the pattern needs the colon.
\<close>

fun search_field :: "string \<Rightarrow> bool \<Rightarrow> string \<Rightarrow> string option" where
  "search_field pat prev [] = None"
| "search_field pat prev (c # cs) =
     (if prev \<noteq> isword c \<and> startswith (c # cs) pat
         \<and> takeWhile (\<lambda>x. \<not> isspace x) (drop (length pat) (c # cs)) \<noteq> []
      then Some (takeWhile (\<lambda>x. \<not> isspace x) (drop (length pat) (c # cs)))
      else search_field pat (isword c) cs)"

definition extract_field :: "string \<Rightarrow> string \<Rightarrow> string option" where
  "extract_field line key = search_field (key @ '':'') False line"

text \<open>
  The lookup is only written with \<open>lookup[k] = val\<close> and read with \<open>.get\<close>, so it is a
  map from keys to triples \<open>(gen, num, rat)\<close>.
\<close>

type_synonym mag_lookup = "string \<rightharpoonup> string \<times> string \<times> string"

text \<open>
  Body of the loop of \<open>build_magold_lookup\<close> for one line of the analysis file.
  \<open>bw_full\<close>, when found, is never empty (the group has at least one character), so
  \<^verbatim>\<open>if bw_full:\<close> is the test for \<open>None\<close>. \<open>bw_tok\<close> is
  \<^verbatim>\<open>bw_full.split("/", 1)[0].lstrip("+")\<close>, and \<^verbatim>\<open>if diac:\<close>, \<^verbatim>\<open>if bw_tok:\<close> refuse
  \<open>None\<close> and the empty string.
\<close>

definition magold_line :: "mag_lookup \<Rightarrow> string \<Rightarrow> mag_lookup" where
  "magold_line lookup raw =
     (let line = strip raw in
      if line = [] \<or> \<not> startswith line ''*'' then lookup
      else
        let gen = extract_field line ''gen'';
            num = extract_field line ''num'';
            rat = extract_field line ''rat'';
            diac = extract_field line ''diac'';
            bw_full = extract_field line ''bw'';
            bw_tok = (case bw_full of
                        None \<Rightarrow> None
                      | Some b \<Rightarrow> if b = [] then None
                                  else Some (lstrip_chars ''+'' (split1 CHR ''/'' b ! 0)))
        in case (gen, num, rat) of
             (Some g, Some n, Some r) \<Rightarrow>
               if g = ''na'' \<or> n = ''na'' \<or> r = ''na'' then lookup
               else
                 let val = (g, n, r);
                     lookup = (case diac of
                                 None \<Rightarrow> lookup
                               | Some d \<Rightarrow> if d = [] then lookup else lookup(d \<mapsto> val));
                     lookup = (case bw_tok of
                                 None \<Rightarrow> lookup
                               | Some t \<Rightarrow> if t = [] then lookup else lookup(t \<mapsto> val))
                 in lookup
           | _ \<Rightarrow> lookup)"

text \<open>\<open>build_magold_lookup\<close> on the lines of the analysis file, starting from the empty lookup.\<close>

definition build_magold_lookup :: "string list \<Rightarrow> mag_lookup" where
  "build_magold_lookup lines = foldl magold_line Map.empty lines"

subsection \<open>The synchronizer\<close>

definition choose_conllu_key :: "pydict \<Rightarrow> string option" where
  "choose_conllu_key misc =
     (if map_of misc ''surface_plus_bw'' \<noteq> None then map_of misc ''surface_plus_bw''
      else if map_of misc ''surface_form_bw'' \<noteq> None then map_of misc ''surface_form_bw''
      else None)"

definition debug_targets :: "string list" where
  "debug_targets = [''m$Akl'', ''ma$Akila'', ''ma$Akil'']"

text \<open>
  The merge of the lookup's triple into the feature map (the three \<^verbatim>\<open>if feats.get(..) != new_..\<close>
  statements): the updated map and the flag \<open>changed\<close>.
\<close>

definition merge_feats :: "pydict \<Rightarrow> string \<times> string \<times> string \<Rightarrow> pydict \<times> bool" where
  "merge_feats feats mag_val =
     (case mag_val of (new_gen, new_num, new_rat) \<Rightarrow>
        let changed = False;
            (feats, changed) =
              (if map_of feats ''gen'' \<noteq> Some new_gen
               then (AList.update ''gen'' new_gen feats, True) else (feats, changed));
            (feats, changed) =
              (if map_of feats ''num'' \<noteq> Some new_num
               then (AList.update ''num'' new_num feats, True) else (feats, changed));
            (feats, changed) =
              (if map_of feats ''rat'' \<noteq> Some new_rat
               then (AList.update ''rat'' new_rat feats, True) else (feats, changed))
        in (feats, changed))"

record sync_state =
  out :: "string list"
  matched :: nat
  updated :: nat
  debug_hits :: "string list"

text \<open>
  Body of the loop of \<open>sync_conllu_with_magold\<close> for one line. \<^verbatim>\<open>if not key\<close> refuses
  \<open>None\<close> and the empty key; a value of the lookup is a triple, which is never falsy, so
  \<^verbatim>\<open>if not mag_val\<close> is the test for a missing key.
\<close>

definition sync_line :: "mag_lookup \<Rightarrow> sync_state \<Rightarrow> string \<Rightarrow> sync_state" where
  "sync_line mag_lookup st ln =
     (if strip ln = [] \<or> startswith ln ''#'' then st\<lparr>out := out st @ [ln]\<rparr>
      else
        let cols = split (CHR 0x09) ln in
        if length cols < 10 then st\<lparr>out := out st @ [ln]\<rparr>
        else
          let feats_str = cols ! 5;
              misc_str = cols ! 9;
              feats = parse_feats feats_str;
              misc = parse_misc misc_str;
              key = choose_conllu_key misc;
              st = (case key of
                      None \<Rightarrow> st
                    | Some k \<Rightarrow>
                        if k \<noteq> [] \<and> k \<in> set debug_targets
                        then st\<lparr>debug_hits := debug_hits st @
                               [''[CONLLU] key='' @ k @ '' feats_before='' @ feats_str
                                @ '' misc='' @ misc_str]\<rparr>
                        else st)
          in case key of
               None \<Rightarrow> st\<lparr>out := out st @ [ln]\<rparr>
             | Some k \<Rightarrow>
                 if k = [] then st\<lparr>out := out st @ [ln]\<rparr>
                 else (case mag_lookup k of
                         None \<Rightarrow> st\<lparr>out := out st @ [ln]\<rparr>
                       | Some mag_val \<Rightarrow>
                           let st = st\<lparr>matched := matched st + 1\<rparr>;
                               (feats, changed) = merge_feats feats mag_val
                           in if changed
                              then
                                let st = st\<lparr>updated := updated st + 1\<rparr>;
                                    cols = cols[5 := format_feats feats];
                                    new_ln = join [CHR 0x09] cols;
                                    st = st\<lparr>out := out st @ [new_ln]\<rparr>
                                in if k \<in> set debug_targets
                                   then st\<lparr>debug_hits := debug_hits st @
                                          [''[UPDATED] key='' @ k @ '' feats_after='' @ cols ! 5]\<rparr>
                                   else st
                              else st\<lparr>out := out st @ [ln]\<rparr>))"

text \<open>
  \<open>sync_conllu_with_magold\<close>: the loop over the lines from the empty output and zero
  counters; the result is \<open>(out, matched, updated, debug_hits)\<close>.
\<close>

definition sync_loop :: "mag_lookup \<Rightarrow> sync_state \<Rightarrow> string list \<Rightarrow> sync_state" where
  "sync_loop mag_lookup st conllu_lines = foldl (sync_line mag_lookup) st conllu_lines"

definition sync_conllu_with_magold ::
  "string list \<Rightarrow> mag_lookup \<Rightarrow> string list \<times> nat \<times> nat \<times> string list" where
  "sync_conllu_with_magold conllu_lines mag_lookup =
     (let st = sync_loop mag_lookup
                 \<lparr>out = [], matched = 0, updated = 0, debug_hits = []\<rparr> conllu_lines
      in (out st, matched st, updated st, debug_hits st))"

section \<open>Script 2: extracting adjective modifiers and their heads\<close>

subsection \<open>Built-ins: \<open>int\<close>, \<open>str.isdigit\<close>, \<open>str\<close> of an integer\<close>

datatype py_error = ValueError

text \<open>The decimal digits (\<open>str.isdecimal\<close>): below 256 these are \<open>0\<close> to \<open>9\<close>.\<close>

definition isdecimal :: "char \<Rightarrow> bool" where
  "isdecimal c = (48 \<le> (of_char c :: nat) \<and> (of_char c :: nat) \<le> 57)"

text \<open>
  \<open>s.isdigit()\<close>: \<open>s\<close> is not empty and every character has the digit property, which
  below 256 the decimal digits and the superscripts two, three and one have.
\<close>

definition isdigit :: "string \<Rightarrow> bool" where
  "isdigit s = (s \<noteq> [] \<and> list_all (\<lambda>c. isdecimal c \<or> of_char c \<in> set [178, 179, 185 :: nat]) s)"

text \<open>
  \<open>int(s)\<close> in base ten: optional whitespace, an optional sign, decimal digits
  with single underscores allowed between them, optional whitespace; anything else
  raises \<open>ValueError\<close>. The whitespace \<open>int\<close> skips is the ASCII whitespace of C
  and the whitespace beyond ASCII (the separators 28 to 31 are refused). The groups
  between underscores must all be non-empty, which also asks for one digit at least.
  More than 4300 digits are refused (the default limit of CPython since 3.11).
\<close>

definition int_space :: "char \<Rightarrow> bool" where
  "int_space c = (of_char c \<in> set [9, 10, 11, 12, 13, 32, 133, 160 :: nat])"

definition digits_value :: "string \<Rightarrow> nat" where
  "digits_value ds = foldl (\<lambda>a c. 10 * a + (of_char c - 48)) 0 ds"

definition py_int :: "string \<Rightarrow> py_error + int" where
  "py_int s =
     (let t = dropWhile int_space s;
          neg = (take 1 t = ''-'');
          t = (if take 1 t = ''-'' \<or> take 1 t = ''+'' then drop 1 t else t);
          body = takeWhile (\<lambda>c. isdecimal c \<or> c = CHR ''_'') t;
          rest = dropWhile (\<lambda>c. isdecimal c \<or> c = CHR ''_'') t;
          digits = filter isdecimal body
      in if [] \<in> set (split CHR ''_'' body) \<or> \<not> list_all int_space rest
            \<or> 4300 < length digits
         then Inl ValueError
         else Inr (if neg then - int (digits_value digits) else int (digits_value digits)))"

text \<open>\<open>str(i)\<close> for an integer.\<close>

fun nat_digits :: "nat \<Rightarrow> string" where
  "nat_digits n =
     (if n < 10 then [char_of (48 + n)] else nat_digits (n div 10) @ [char_of (48 + n mod 10)])"

declare nat_digits.simps [simp del]

definition py_str :: "int \<Rightarrow> string" where
  "py_str i = (if i < 0 then CHR ''-'' # nat_digits (nat (- i)) else nat_digits (nat i))"

text \<open>\<open>d.get(k, dflt)\<close>.\<close>

definition get_default :: "pydict \<Rightarrow> string \<Rightarrow> string \<Rightarrow> string" where
  "get_default d k dflt = (case map_of d k of None \<Rightarrow> dflt | Some v \<Rightarrow> v)"

subsection \<open>The classifier\<close>

definition is_adj_token :: "string \<Rightarrow> string \<Rightarrow> pydict \<Rightarrow> bool" where
  "is_adj_token upos xpos misc =
     (let bw = get_default misc ''bw'' [];
          mada = get_default misc ''mada'' [];
          kulick = get_default misc ''kulick'' []
      in if startswith bw ''ADJ'' then True
         else if mada = ''adj'' then True
         else if kulick = ''JJ'' then True
         else if ''ADJ'' \<in> set (split CHR ''+'' bw) then True
         else False)"

definition is_noun_like :: "pydict \<Rightarrow> string \<Rightarrow> string \<Rightarrow> bool" where
  "is_noun_like misc upos xpos =
     (let bw = get_default misc ''bw'' [];
          mada = get_default misc ''mada'' []
      in if startswith bw ''NOUN'' then True
         else if mada = ''noun'' then True
         else False)"

subsection \<open>Sentences and tokens\<close>

text \<open>
  \<open>read_conllu_sentences\<close> on the lines of the file; \<open>read_sentences_from\<close> is its
  loop, with the sentences closed so far and the lines of the current one.
\<close>

fun read_sentences_from :: "string list list \<Rightarrow> string list \<Rightarrow> string list \<Rightarrow> string list list" where
  "read_sentences_from sentences cur [] = (if cur \<noteq> [] then sentences @ [cur] else sentences)"
| "read_sentences_from sentences cur (line # lines) =
     (if strip line = []
      then (if cur \<noteq> [] then read_sentences_from (sentences @ [cur]) [] lines
            else read_sentences_from sentences cur lines)
      else read_sentences_from sentences (cur @ [line]) lines)"

definition read_conllu_sentences :: "string list \<Rightarrow> string list list" where
  "read_conllu_sentences lines = read_sentences_from [] [] lines"

text \<open>The dictionary \<open>parse_token_line\<close> returns (\<open>id\<close> and \<open>lemma\<close> are renamed).\<close>

record token =
  tok_id :: int
  form :: string
  tok_lemma :: string
  upos :: string
  xpos :: string
  feats_raw :: string
  head :: int
  deprel :: string
  deps :: string
  misc_raw :: string

text \<open>
  \<open>parse_token_line\<close>: \<open>None\<close> for a line that is no token line, the token otherwise;
  \<open>int\<close> may raise on the id, and on a head that \<open>isdigit\<close> accepts.
\<close>

definition parse_token_line :: "string \<Rightarrow> py_error + token option" where
  "parse_token_line line =
     (if startswith line ''#'' then Inr None
      else
        let cols = split (CHR 0x09) line in
        if length cols < 10 then Inr None
        else
          let tid = cols ! 0 in
          if CHR ''-'' \<in> set tid \<or> CHR ''.'' \<in> set tid then Inr None
          else (case py_int tid of
                  Inl e \<Rightarrow> Inl e
                | Inr i \<Rightarrow>
                    (case (if isdigit (cols ! 6) then py_int (cols ! 6) else Inr 0) of
                       Inl e \<Rightarrow> Inl e
                     | Inr h \<Rightarrow>
                         Inr (Some \<lparr>tok_id = i, form = cols ! 1, tok_lemma = cols ! 2,
                                    upos = cols ! 3, xpos = cols ! 4, feats_raw = cols ! 5,
                                    head = h, deprel = cols ! 7, deps = cols ! 8,
                                    misc_raw = cols ! 9\<rparr>))))"

text \<open>The token once \<open>main\<close> has stored its two parsed maps in it.\<close>

record sent_token = token +
  feats :: pydict
  misc :: pydict

definition with_maps :: "token \<Rightarrow> sent_token" where
  "with_maps t =
     \<lparr>tok_id = tok_id t, form = form t, tok_lemma = tok_lemma t, upos = upos t,
      xpos = xpos t, feats_raw = feats_raw t, head = head t, deprel = deprel t,
      deps = deps t, misc_raw = misc_raw t,
      feats = parse_feats (feats_raw t), misc = parse_misc (misc_raw t)\<rparr>"

text \<open>
  The first inner loop of \<open>main\<close>: the map from id to token of one sentence, in
  insertion order. A \<open>ValueError\<close> of \<open>parse_token_line\<close> ends the run.
\<close>

fun add_token_lines ::
  "(int \<times> sent_token) list \<Rightarrow> string list \<Rightarrow> py_error + (int \<times> sent_token) list" where
  "add_token_lines tokens [] = Inr tokens"
| "add_token_lines tokens (ln # lns) =
     (case parse_token_line ln of
        Inl e \<Rightarrow> Inl e
      | Inr None \<Rightarrow> add_token_lines tokens lns
      | Inr (Some t) \<Rightarrow> add_token_lines (AList.update (tok_id t) (with_maps t) tokens) lns)"

subsection \<open>Pairs\<close>

record pair_row =
  sent_idx :: string
  adj_id :: string
  adj_form :: string
  adj_lemma :: string
  adj_feats :: string
  adj_misc :: string
  head_id :: string
  head_form :: string
  head_lemma :: string
  head_feats :: string
  head_misc :: string
  row_deprel :: string

definition make_row :: "nat \<Rightarrow> int \<Rightarrow> sent_token \<Rightarrow> int \<Rightarrow> sent_token \<Rightarrow> pair_row" where
  "make_row sent_i dep_id dep hid head_tok =
     \<lparr>sent_idx = py_str (int sent_i), adj_id = py_str dep_id, adj_form = form dep,
      adj_lemma = tok_lemma dep, adj_feats = feats_raw dep, adj_misc = misc_raw dep,
      head_id = py_str hid, head_form = form head_tok, head_lemma = tok_lemma head_tok,
      head_feats = feats_raw head_tok, head_misc = misc_raw head_tok,
      row_deprel = deprel dep\<rparr>"

text \<open>
  Body of the second inner loop of \<open>main\<close> for one entry \<open>(dep_id, dep)\<close> of the
  sentence's map: the rows it appends, none or one.
\<close>

definition dep_rows :: "nat \<Rightarrow> (int \<times> sent_token) list \<Rightarrow> int \<times> sent_token \<Rightarrow> pair_row list" where
  "dep_rows sent_i tokens item =
     (case item of (dep_id, dep) \<Rightarrow>
        if deprel dep \<noteq> ''MOD'' then []
        else if \<not> is_adj_token (upos dep) (xpos dep) (misc dep) then []
        else
          let hid = head dep in
          (case map_of tokens hid of
             None \<Rightarrow> []
           | Some head_tok \<Rightarrow>
               if \<not> is_noun_like (misc head_tok) (upos head_tok) (xpos head_tok) then []
               else [make_row sent_i dep_id dep hid head_tok]))"

definition sentence_rows :: "nat \<Rightarrow> (int \<times> sent_token) list \<Rightarrow> pair_row list" where
  "sentence_rows sent_i tokens = concat (map (dep_rows sent_i tokens) tokens)"

text \<open>
  The loop of \<open>main\<close> over \<open>enumerate(sents, start=1)\<close>, and the rows \<open>main\<close>
  writes for the lines of the input file.
\<close>

fun main_loop :: "nat \<Rightarrow> pair_row list \<Rightarrow> string list list \<Rightarrow> py_error + pair_row list" where
  "main_loop sent_i rows [] = Inr rows"
| "main_loop sent_i rows (sent_lines # sents) =
     (case add_token_lines [] sent_lines of
        Inl e \<Rightarrow> Inl e
      | Inr tokens \<Rightarrow> main_loop (sent_i + 1) (rows @ sentence_rows sent_i tokens) sents)"

definition extract_pairs :: "string list \<Rightarrow> py_error + pair_row list" where
  "extract_pairs lines = main_loop 1 [] (read_conllu_sentences lines)"

section \<open>Auxiliary notions for the proofs\<close>

text \<open>The entries of a dictionary in the order \<open>format_feats\<close> writes them.\<close>

definition sorted_items :: "pydict \<Rightarrow> pydict" where
  "sorted_items d = map (\<lambda>k. (k, the (map_of d k))) (sort (map fst d))"

text \<open>
  The columns of a line the synchronizer treats as a token line; the line's columns,
  key and triple when the key it resolves to is found in the lookup; and the line the
  loop body appends for an input line, with the flag telling whether it counts as updated.
\<close>

definition token_cols :: "string \<Rightarrow> string list option" where
  "token_cols ln =
     (if strip ln = [] \<or> startswith ln ''#'' then None
      else if length (split (CHR 0x09) ln) < 10 then None
      else Some (split (CHR 0x09) ln))"

definition line_hit ::
  "mag_lookup \<Rightarrow> string \<Rightarrow> (string list \<times> string \<times> string \<times> string \<times> string) option" where
  "line_hit L ln =
     (case token_cols ln of
        None \<Rightarrow> None
      | Some cols \<Rightarrow>
          (case choose_conllu_key (parse_misc (cols ! 9)) of
             None \<Rightarrow> None
           | Some k \<Rightarrow> if k = [] then None
                       else (case L k of None \<Rightarrow> None | Some v \<Rightarrow> Some (cols, k, v))))"

definition line_result :: "mag_lookup \<Rightarrow> string \<Rightarrow> string \<times> bool" where
  "line_result L ln =
     (case line_hit L ln of
        None \<Rightarrow> (ln, False)
      | Some (cols, k, v) \<Rightarrow>
          (case merge_feats (parse_feats (cols ! 5)) v of
             (f, changed) \<Rightarrow>
               if changed then (join [CHR 0x09] (cols[5 := format_feats f]), True)
               else (ln, False)))"

section \<open>Properties of the string operations\<close>


lemma split_from_no_sep: "sep \<notin> set s \<Longrightarrow> split_from sep cur s = [cur @ s]"
  by (induction s arbitrary: cur) auto

lemma split_from_append:
  "sep \<notin> set a \<Longrightarrow> split_from sep cur (a @ sep # r) = (cur @ a) # split_from sep [] r"
  by (induction a arbitrary: cur) auto

lemma join_Cons: "ys \<noteq> [] \<Longrightarrow> join sep (x # ys) = x @ sep @ join sep ys"
  by (cases ys) auto

lemma join_snoc: "xs \<noteq> [] \<Longrightarrow> join sep (xs @ [y]) = join sep xs @ sep @ y"
  by (induction sep xs rule: join.induct) auto

lemma split_join:
  "fs \<noteq> [] \<Longrightarrow> (\<And>f. f \<in> set fs \<Longrightarrow> sep \<notin> set f) \<Longrightarrow> split sep (join [sep] fs) = fs"
proof (induction fs)
  case Nil
  then show ?case by simp
next
  case (Cons f fs)
  show ?case
  proof (cases fs)
    case Nil
    with Cons.prems show ?thesis by (simp add: split_def split_from_no_sep)
  next
    case (Cons g gs)
    with Cons.prems Cons.IH show ?thesis
      by (simp add: split_def split_from_append)
  qed
qed

lemma split_from_fields:
  "f \<in> set (split_from sep cur s) \<Longrightarrow> set f \<subseteq> set cur \<union> (set s - {sep})"
proof (induction s arbitrary: cur)
  case Nil
  then show ?case by simp
next
  case (Cons c cs)
  show ?case
  proof (cases "c = sep")
    case True
    with Cons.prems have "f = cur \<or> f \<in> set (split_from sep [] cs)" by simp
    with Cons.IH [of "[]"] show ?thesis by auto
  next
    case False
    with Cons.prems have "f \<in> set (split_from sep (cur @ [c]) cs)" by simp
    from Cons.IH [OF this] False show ?thesis by auto
  qed
qed

lemma split_fields_sep: "f \<in> set (split sep s) \<Longrightarrow> sep \<notin> set f"
  using split_from_fields [of f sep "[]" s] by (auto simp: split_def)

lemma split_fields_subset: "f \<in> set (split sep s) \<Longrightarrow> set f \<subseteq> set s"
  using split_from_fields [of f sep "[]" s] by (auto simp: split_def)

lemma split_from_not_Nil: "split_from sep cur s \<noteq> []"
  by (induction s arbitrary: cur) auto

lemma split_not_Nil: "split sep s \<noteq> []"
  by (simp add: split_def split_from_not_Nil)

lemma join_split_from: "join [sep] (split_from sep cur s) = cur @ s"
  by (induction s arbitrary: cur) (auto simp: join_Cons split_from_not_Nil)

lemma join_split: "join [sep] (split sep s) = s"
  by (simp add: split_def join_split_from)

lemma lstrip_nonspace: "\<not> isspace c \<Longrightarrow> lstrip (k @ c # v) = lstrip k @ c # v"
  by (simp add: lstrip_def dropWhile_append)

lemma rstrip_nonspace: "\<not> isspace c \<Longrightarrow> rstrip (k @ c # v) = k @ c # rstrip v"
  by (simp add: rstrip_def dropWhile_append)

lemma set_lstrip: "set (lstrip s) \<subseteq> set s"
  by (auto simp: lstrip_def dest: set_dropWhileD)

lemma set_rstrip: "set (rstrip s) \<subseteq> set s"
  by (auto simp: rstrip_def dest: set_dropWhileD)

lemma set_strip: "set (strip s) \<subseteq> set s"
  using set_lstrip set_rstrip by (fastforce simp: strip_def)

lemma takeWhile_neq_sep: "sep \<notin> set k \<Longrightarrow> takeWhile (\<lambda>c. c \<noteq> sep) (k @ sep # v) = k"
  by (induction k) auto

lemma dropWhile_neq_sep: "sep \<notin> set k \<Longrightarrow> dropWhile (\<lambda>c. c \<noteq> sep) (k @ sep # v) = sep # v"
  by (induction k) auto

lemma split1_eq: "sep \<notin> set k \<Longrightarrow> split1 sep (k @ sep # v) = [k, v]"
  by (simp add: split1_def takeWhile_neq_sep dropWhile_neq_sep)

lemma add_part_fmt: "CHR ''='' \<notin> set k \<Longrightarrow> add_part d (k @ CHR ''='' # v) = AList.update k v d"
  by (simp add: add_part_def split1_eq)

section \<open>Properties of the codec\<close>

lemma foldl_add_part_fmt:
  "\<forall>kv\<in>set kvs. CHR ''='' \<notin> set (fst kv) \<Longrightarrow>
   foldl add_part d (map (\<lambda>(k, v). k @ CHR ''='' # v) kvs) = foldl (\<lambda>d (k, v). AList.update k v d) d kvs"
  by (induction kvs arbitrary: d) (auto simp: add_part_fmt)

lemma map_of_foldl_update:
  "map_of (foldl (\<lambda>d (k, v). AList.update k v d) d kvs) = map_of d ++ map_of (rev kvs)"
  by (induction kvs arbitrary: d) (auto simp: update_conv')

lemma distinct_foldl_add_part:
  "distinct (map fst d) \<Longrightarrow> distinct (map fst (foldl add_part d parts))"
  by (induction parts arbitrary: d) (auto simp: add_part_def distinct_update split: list.splits)

lemma join_fmt_has_eq:
  "kvs \<noteq> [] \<Longrightarrow> CHR ''='' \<in> set (join sep (map (\<lambda>(k, v). k @ CHR ''='' # v) kvs))"
  by (cases kvs; cases "tl kvs") (auto)

lemma lstrip_join_fmt:
  "lstrip (join sep (map (\<lambda>(k, v). k @ CHR ''='' # v) ((k1, v1) # rest)))
     = join sep (map (\<lambda>(k, v). k @ CHR ''='' # v) ((lstrip k1, v1) # rest))"
  by (cases rest) (simp_all add: lstrip_nonspace isspace_def)

lemma rstrip_join_fmt:
  "rstrip (join sep (map (\<lambda>(k, v). k @ CHR ''='' # v) (init @ [(km, vm)])))
     = join sep (map (\<lambda>(k, v). k @ CHR ''='' # v) (init @ [(km, rstrip vm)]))"
proof (cases "init = []")
  case True
  then show ?thesis by (simp add: rstrip_nonspace isspace_def)
next
  case False
  then have "map (\<lambda>(k, v). k @ CHR ''='' # v) init \<noteq> []" by simp
  then show ?thesis
    using rstrip_nonspace [of "CHR ''=''" "join sep (map (\<lambda>(k, v). k @ CHR ''='' # v) init) @ sep @ km"]
    by (simp add: join_snoc isspace_def)
qed


lemma parse_feats_of_strip:
  assumes "kvs \<noteq> []"
    and "\<forall>kv\<in>set kvs. CHR ''='' \<notin> set (fst kv) \<and> CHR ''|'' \<notin> set (fst kv) \<and> CHR ''|'' \<notin> set (snd kv)"
    and "strip s = join ''|'' (map (\<lambda>(k, v). k @ CHR ''='' # v) kvs)"
  shows "parse_feats s = foldl (\<lambda>d (k, v). AList.update k v d) [] kvs"
proof -
  let ?parts = "map (\<lambda>(k, v). k @ CHR ''='' # v) kvs"
  have eq: "CHR ''='' \<in> set (strip s)"
    using assms(1,3) join_fmt_has_eq [of kvs "''|''"] by simp
  then have ne: "strip s \<noteq> []" "strip s \<noteq> ''_''" by auto
  have "split CHR ''|'' (join ''|'' ?parts) = ?parts"
  proof (rule split_join)
    show "?parts \<noteq> []" using assms(1) by simp
    fix f assume "f \<in> set ?parts"
    then obtain k v where "(k, v) \<in> set kvs" "f = k @ CHR ''='' # v" by auto
    with assms(2) show "CHR ''|'' \<notin> set f" by fastforce
  qed
  moreover have "foldl add_part [] ?parts = foldl (\<lambda>d (k, v). AList.update k v d) [] kvs"
    using assms(2) by (intro foldl_add_part_fmt) blast
  ultimately show ?thesis
    using ne assms(3) by (simp add: parse_feats_def)
qed

lemma format_feats_sorted_items:
  "d \<noteq> [] \<Longrightarrow> format_feats d = join ''|'' (map (\<lambda>(k, v). k @ CHR ''='' # v) (sorted_items d))"
  by (simp add: format_feats_def sorted_items_def comp_def)

lemma map_fst_sorted_items: "map fst (sorted_items d) = sort (map fst d)"
  by (simp add: sorted_items_def comp_def)

lemma sorted_items_Nil: "sorted_items d = [] \<longleftrightarrow> d = []"
proof -
  have "length (sorted_items d) = length d" by (simp add: sorted_items_def)
  then show ?thesis by (metis length_0_conv)
qed

lemma set_sorted_items: "distinct (map fst d) \<Longrightarrow> set (sorted_items d) = set d"
  by (force simp: sorted_items_def image_iff)

lemma map_of_rev_sorted_items:
  assumes "distinct (map fst d)"
  shows "map_of (rev (sorted_items d)) = map_of d"
proof -
  have "distinct (map fst (rev (sorted_items d)))"
    using assms by (simp add: rev_map [symmetric] map_fst_sorted_items)
  moreover have "set (rev (sorted_items d)) = set d"
    using assms by (simp add: set_sorted_items)
  ultimately show ?thesis
    using assms by (simp add: map_of_inject_set)
qed

lemma set_update_subset: "set (AList.update k v d) \<subseteq> insert (k, v) (set d)"
  by (induction d) auto

lemma sorted_items_decomp:
  assumes "2 \<le> length d"
  obtains k1 v1 mid km vm where "sorted_items d = (k1, v1) # mid @ [(km, vm)]"
proof -
  have "2 \<le> length (sorted_items d)" using assms by (simp add: sorted_items_def)
  then obtain x xs where x: "sorted_items d = x # xs" "xs \<noteq> []"
    by (cases "sorted_items d") force+
  then obtain mid y where "xs = mid @ [y]" by (metis rev_exhaust)
  with x that show thesis by (cases x; cases y) auto
qed

lemma parse_format_decomp:
  assumes "distinct (map fst d)"
    and "\<forall>kv\<in>set d. CHR ''='' \<notin> set (fst kv) \<and> CHR ''|'' \<notin> set (fst kv) \<and> CHR ''|'' \<notin> set (snd kv)"
    and "sorted_items d = (k1, v1) # mid @ [(km, vm)]"
  shows "parse_feats (format_feats d)
       = foldl (\<lambda>d (k, v). AList.update k v d) [] ((lstrip k1, v1) # mid @ [(km, rstrip vm)])"
proof (rule parse_feats_of_strip)
  let ?fmt = "\<lambda>(k, v). k @ CHR ''='' # v"
  show "(lstrip k1, v1) # mid @ [(km, rstrip vm)] \<noteq> []" by simp
  have sub: "set (sorted_items d) = set d" using assms(1) by (rule set_sorted_items)
  have "(k1, v1) \<in> set d" "(km, vm) \<in> set d" "set mid \<subseteq> set d"
    using sub assms(3) by auto
  then show "\<forall>kv\<in>set ((lstrip k1, v1) # mid @ [(km, rstrip vm)]).
      CHR ''='' \<notin> set (fst kv) \<and> CHR ''|'' \<notin> set (fst kv) \<and> CHR ''|'' \<notin> set (snd kv)"
    using assms(2) set_lstrip [of k1] set_rstrip [of vm] by fastforce
  have "d \<noteq> []" using assms(3) sorted_items_Nil [of d] by auto
  then have "format_feats d = join ''|'' (map ?fmt ((k1, v1) # mid @ [(km, vm)]))"
    using assms(3) by (simp add: format_feats_sorted_items)
  then have "lstrip (format_feats d) = join ''|'' (map ?fmt (((lstrip k1, v1) # mid) @ [(km, vm)]))"
    using lstrip_join_fmt [of "''|''" k1 v1 "mid @ [(km, vm)]"] by simp
  then have "rstrip (lstrip (format_feats d)) = join ''|'' (map ?fmt (((lstrip k1, v1) # mid) @ [(km, rstrip vm)]))"
    by (simp only: rstrip_join_fmt)
  then show "strip (format_feats d) = join ''|'' (map ?fmt ((lstrip k1, v1) # mid @ [(km, rstrip vm)]))"
    by (simp add: strip_def)
qed


lemma map_of_stripped_ends:
  assumes "distinct (map fst d)"
    and "sorted_items d = (k1, v1) # mid @ [(km, vm)]"
    and "map_of d t = Some w"
    and "lstrip t = t"
    and "t = km \<longrightarrow> rstrip w = w"
  shows "map_of (foldl (\<lambda>d (k, v). AList.update k v d) [] ((lstrip k1, v1) # mid @ [(km, rstrip vm)])) t = Some w"
proof -
  let ?kvs = "(k1, v1) # mid @ [(km, vm)]"
  have dist: "distinct (map fst ?kvs)"
    using assms(1,2) map_fst_sorted_items [of d] by (metis distinct_sort)
  have "set ?kvs = set d" using assms(1,2) set_sorted_items [of d] by simp
  moreover have "(t, w) \<in> set d" using assms(3) by (rule map_of_SomeD)
  ultimately have mem: "(t, w) \<in> set ?kvs" by simp
  have eq: "map_of (foldl (\<lambda>d (k, v). AList.update k v d) [] ((lstrip k1, v1) # mid @ [(km, rstrip vm)]))
          = map_of ((km, rstrip vm) # rev mid @ [(lstrip k1, v1)])"
    by (subst map_of_foldl_update) simp
  show ?thesis
  proof (cases "t = km")
    case True
    with mem dist have "w = vm" by (auto simp: image_iff)
    with True assms(5) eq show ?thesis by simp
  next
    case False
    show ?thesis
    proof (cases "(t, w) \<in> set mid")
      case True
      moreover have "distinct (map fst (rev mid))" using dist by (simp add: rev_map [symmetric])
      ultimately have "map_of (rev mid) t = Some w" by (intro map_of_is_SomeI) simp_all
      with False eq show ?thesis by (simp add: map_add_def)
    next
      case mid: False
      with mem False have tk: "t = k1" "w = v1" by auto
      with dist have "t \<notin> fst ` set mid" by auto
      then have "map_of (rev mid) t = None" by (simp add: map_of_eq_None_iff)
      with False eq tk assms(4) show ?thesis by (simp add: map_add_def)
    qed
  qed
qed

lemma add_part_entries:
  assumes "kv \<in> set (add_part d part)"
  shows "kv \<in> set d \<or> (CHR ''='' \<notin> set (fst kv) \<and> set (fst kv) \<subseteq> set part \<and> set (snd kv) \<subseteq> set part)"
proof (cases "CHR ''='' \<in> set part")
  case False
  with assms show ?thesis by (simp add: add_part_def)
next
  case True
  let ?k = "takeWhile (\<lambda>c. c \<noteq> CHR ''='') part"
  let ?v = "drop 1 (dropWhile (\<lambda>c. c \<noteq> CHR ''='') part)"
  from True assms have "kv \<in> set (AList.update ?k ?v d)"
    by (simp add: add_part_def split1_def)
  then have "kv \<in> set d \<or> kv = (?k, ?v)" using set_update_subset [of ?k ?v d] by auto
  moreover have "CHR ''='' \<notin> set ?k" by (auto dest: set_takeWhileD)
  moreover have "set ?k \<subseteq> set part" by (auto dest: set_takeWhileD)
  moreover have "set ?v \<subseteq> set part" by (auto dest!: in_set_dropD set_dropWhileD)
  ultimately show ?thesis by auto
qed

lemma foldl_add_part_entries:
  assumes "kv \<in> set (foldl add_part d parts)"
  shows "kv \<in> set d \<or> (\<exists>part\<in>set parts. CHR ''='' \<notin> set (fst kv) \<and> set (fst kv) \<subseteq> set part \<and> set (snd kv) \<subseteq> set part)"
  using assms
proof (induction parts arbitrary: d)
  case Nil
  then show ?case by simp
next
  case (Cons p ps)
  from Cons.prems have "kv \<in> set (foldl add_part (add_part d p) ps)" by simp
  from Cons.IH [OF this] add_part_entries [of kv d p] show ?case by auto
qed

lemma parse_feats_wf:
  assumes "kv \<in> set (parse_feats s)"
  shows "CHR ''='' \<notin> set (fst kv) \<and> CHR ''|'' \<notin> set (fst kv) \<and> CHR ''|'' \<notin> set (snd kv)
         \<and> set (fst kv) \<subseteq> set s \<and> set (snd kv) \<subseteq> set s"
proof -
  from assms have "kv \<in> set (foldl add_part [] (split CHR ''|'' (strip s)))"
    by (auto simp: parse_feats_def Let_def split: if_splits)
  from foldl_add_part_entries [OF this]
  obtain part where p: "part \<in> set (split CHR ''|'' (strip s))"
      "CHR ''='' \<notin> set (fst kv)" "set (fst kv) \<subseteq> set part" "set (snd kv) \<subseteq> set part"
    by force
  from p(1) have "CHR ''|'' \<notin> set part" "set part \<subseteq> set s"
    using split_fields_sep split_fields_subset set_strip by fastforce+
  with p show ?thesis by auto
qed

lemma distinct_parse_feats: "distinct (map fst (parse_feats s))"
  by (simp add: parse_feats_def Let_def distinct_foldl_add_part)

section \<open>Properties of the merge and further string facts\<close>

lemma merge_feats_eq:
  "merge_feats f (g, n, r) =
     (AList.update ''rat'' r (AList.update ''num'' n (AList.update ''gen'' g f)),
      map_of f ''gen'' \<noteq> Some g \<or> map_of f ''num'' \<noteq> Some n \<or> map_of f ''rat'' \<noteq> Some r)"
  by (cases "map_of f ''gen'' = Some g"; cases "map_of f ''num'' = Some n";
      cases "map_of f ''rat'' = Some r")
     (simp_all add: merge_feats_def Let_def update_triv update_conv')


lemma merge_feats_map_of:
  "map_of (fst (merge_feats f (g, n, r))) = (map_of f)(''gen'' \<mapsto> g, ''num'' \<mapsto> n, ''rat'' \<mapsto> r)"
  by (simp add: merge_feats_eq update_conv')

lemma merge_feats_distinct:
  "distinct (map fst f) \<Longrightarrow> distinct (map fst (fst (merge_feats f (g, n, r))))"
  by (simp add: merge_feats_eq distinct_update)

lemma merge_feats_entries:
  assumes "kv \<in> set (fst (merge_feats f (g, n, r)))"
  shows "kv \<in> set f \<or> kv = (''gen'', g) \<or> kv = (''num'', n) \<or> kv = (''rat'', r)"
proof -
  let ?f1 = "AList.update ''gen'' g f"
  let ?f2 = "AList.update ''num'' n ?f1"
  from assms have "kv \<in> set (AList.update ''rat'' r ?f2)" by (simp add: merge_feats_eq)
  then have "kv = (''rat'', r) \<or> kv \<in> set ?f2" using set_update_subset by fastforce
  moreover have "kv \<in> set ?f2 \<Longrightarrow> kv = (''num'', n) \<or> kv \<in> set ?f1"
    using set_update_subset by fastforce
  moreover have "kv \<in> set ?f1 \<Longrightarrow> kv = (''gen'', g) \<or> kv \<in> set f"
    using set_update_subset by fastforce
  ultimately show ?thesis by blast
qed

lemma merge_feats_unchanged:
  "\<not> snd (merge_feats f (g, n, r)) \<longleftrightarrow>
     map_of f ''gen'' = Some g \<and> map_of f ''num'' = Some n \<and> map_of f ''rat'' = Some r"
  by (auto simp: merge_feats_eq)

lemma dropWhile_keeps: "c \<in> set x \<Longrightarrow> \<not> P c \<Longrightarrow> c \<in> set (dropWhile P x)"
  by (induction x) auto

lemma strip_not_Nil: "c \<in> set x \<Longrightarrow> \<not> isspace c \<Longrightarrow> strip x \<noteq> []"
proof -
  assume a: "c \<in> set x" "\<not> isspace c"
  then have "c \<in> set (lstrip x)" by (simp add: lstrip_def dropWhile_keeps)
  with a(2) show ?thesis by (auto simp: strip_def rstrip_def)
qed

lemma set_join: "c \<in> set (join sep xs) \<Longrightarrow> c \<in> set sep \<or> (\<exists>x\<in>set xs. c \<in> set x)"
  by (induction sep xs rule: join.induct) auto

lemma set_join_elem: "x \<in> set xs \<Longrightarrow> set x \<subseteq> set (join sep xs)"
  by (induction sep xs rule: join.induct) auto

lemma startswith_join:
  "2 \<le> length xs \<Longrightarrow> startswith (join [t] xs) [h] \<longleftrightarrow> startswith (xs ! 0 @ [t]) [h]"
proof -
  assume "2 \<le> length xs"
  then obtain x y ys where "xs = x # y # ys" by (cases xs; cases "tl xs") auto
  then show ?thesis by (cases x) (simp_all add: startswith_def)
qed

lemma format_feats_chars:
  assumes "c \<in> set (format_feats d)" and "distinct (map fst d)"
    and "c \<noteq> CHR ''=''" and "c \<noteq> CHR ''|''" and "c \<noteq> CHR ''_''"
  shows "\<exists>kv\<in>set d. c \<in> set (fst kv) \<or> c \<in> set (snd kv)"
proof (cases "d = []")
  case True
  with assms show ?thesis by (simp add: format_feats_def)
next
  case False
  with assms(1) have "c \<in> set (join ''|'' (map (\<lambda>(k, v). k @ CHR ''='' # v) (sorted_items d)))"
    by (simp add: format_feats_sorted_items)
  with assms(4) obtain kv where "kv \<in> set (sorted_items d)" "c \<in> set (fst kv @ CHR ''='' # snd kv)"
    by (fastforce dest!: set_join)
  with assms(2,3) show ?thesis by (auto simp: set_sorted_items)
qed

section \<open>Properties of the synchronizer\<close>

lemma sync_line_out: "out (sync_line L st ln) = out st @ [fst (line_result L ln)]"
  by (auto simp: sync_line_def line_result_def line_hit_def token_cols_def Let_def
      split: option.splits prod.splits)

lemma sync_line_updated:
  "updated (sync_line L st ln) = updated st + (if snd (line_result L ln) then 1 else 0)"
  by (auto simp: sync_line_def line_result_def line_hit_def token_cols_def Let_def
      split: option.splits prod.splits)

lemma sync_line_matched:
  "matched (sync_line L st ln) = matched st + (if line_hit L ln = None then 0 else 1)"
  by (auto simp: sync_line_def line_result_def line_hit_def token_cols_def Let_def
      split: option.splits prod.splits)

lemma sync_loop_out: "out (sync_loop L st lines) = out st @ map (\<lambda>ln. fst (line_result L ln)) lines"
  unfolding sync_loop_def by (induction lines arbitrary: st) (simp_all add: sync_line_out)

lemma sync_loop_updated:
  "updated (sync_loop L st lines) = updated st + length (filter (\<lambda>ln. snd (line_result L ln)) lines)"
  unfolding sync_loop_def by (induction lines arbitrary: st) (simp_all add: sync_line_updated)

lemma sync_loop_matched:
  "matched (sync_loop L st lines) = matched st + length (filter (\<lambda>ln. line_hit L ln \<noteq> None) lines)"
  unfolding sync_loop_def by (induction lines arbitrary: st) (simp_all add: sync_line_matched)

lemma parse_format_key:
  assumes dist: "distinct (map fst d)"
    and wf: "\<forall>kv\<in>set d. CHR ''='' \<notin> set (fst kv) \<and> CHR ''|'' \<notin> set (fst kv) \<and> CHR ''|'' \<notin> set (snd kv)"
    and len: "2 \<le> length d"
    and tw: "map_of d t = Some w"
    and lt: "lstrip t = t"
    and last: "rstrip w = w \<or> (\<exists>t'\<in>fst ` set d. t < t')"
  shows "map_of (parse_feats (format_feats d)) t = Some w"
proof -
  from len obtain k1 v1 mid km vm where dec: "sorted_items d = (k1, v1) # mid @ [(km, vm)]"
    by (rule sorted_items_decomp)
  have "sorted (map fst (sorted_items d))" by (simp add: map_fst_sorted_items)
  with dec have le: "\<forall>k\<in>set (map fst (sorted_items d)). k \<le> km"
    by (auto simp: sorted_append)
  have keys: "set (map fst (sorted_items d)) = fst ` set d"
    by (simp add: map_fst_sorted_items)
  have "t = km \<longrightarrow> rstrip w = w"
  proof
    assume "t = km"
    with le keys have "\<forall>t'\<in>fst ` set d. t' \<le> t" by blast
    with last show "rstrip w = w" by (auto simp: not_less [symmetric])
  qed
  with dist dec tw lt
  have "map_of (foldl (\<lambda>d (k, v). AList.update k v d) [] ((lstrip k1, v1) # mid @ [(km, rstrip vm)])) t = Some w"
    by (rule map_of_stripped_ends)
  with parse_format_decomp [OF dist wf dec] show ?thesis by simp
qed

lemma token_cols_SomeD:
  "token_cols ln = Some cols \<Longrightarrow>
     cols = split (CHR 0x09) ln \<and> 10 \<le> length cols \<and> strip ln \<noteq> [] \<and> \<not> startswith ln ''#''"
  by (auto simp: token_cols_def split: if_splits)

lemma token_cols_replace:
  assumes tc: "token_cols ln = Some cols"
    and tab: "CHR 0x09 \<notin> set s"
    and c: "c \<in> set s" "\<not> isspace c"
  shows "token_cols (join [CHR 0x09] (cols[5 := s])) = Some (cols[5 := s])"
proof -
  from tc have cols: "cols = split (CHR 0x09) ln" "10 \<le> length cols" "strip ln \<noteq> []"
      "\<not> startswith ln ''#''"
    by (auto dest: token_cols_SomeD)
  let ?new = "join [CHR 0x09] (cols[5 := s])"
  have "\<And>f. f \<in> set (cols[5 := s]) \<Longrightarrow> CHR 0x09 \<notin> set f"
  proof -
    fix f assume "f \<in> set (cols[5 := s])"
    then have "f = s \<or> f \<in> set cols" using set_update_subset_insert [of cols 5 s] by auto
    with tab cols(1) show "CHR 0x09 \<notin> set f" using split_fields_sep by blast
  qed
  moreover have "cols[5 := s] \<noteq> []" using cols(2) by auto
  ultimately have sp: "split (CHR 0x09) ?new = cols[5 := s]" by (intro split_join)
  have "s \<in> set (cols[5 := s])" using cols(2) by (intro set_update_memI) simp
  then have "c \<in> set ?new" using c(1) set_join_elem by blast
  then have ne: "strip ?new \<noteq> []" using c(2) by (rule strip_not_Nil)
  have "ln = join [CHR 0x09] cols" using cols(1) by (simp add: join_split)
  then have "startswith ln ''#'' = startswith (cols ! 0 @ [CHR 0x09]) ''#''"
    using cols(2) startswith_join [of cols "CHR 0x09" "CHR ''#''"] by simp
  moreover have "startswith ?new ''#'' = startswith (cols ! 0 @ [CHR 0x09]) ''#''"
    using cols(2) startswith_join [of "cols[5 := s]" "CHR 0x09" "CHR ''#''"] by simp
  ultimately have "\<not> startswith ?new ''#''" using cols(4) by simp
  with sp ne cols(2) show ?thesis by (simp add: token_cols_def)
qed

lemma length_ge_2I: "x \<in> set xs \<Longrightarrow> y \<in> set xs \<Longrightarrow> x \<noteq> y \<Longrightarrow> 2 \<le> length xs"
  by (cases xs; cases "tl xs") auto

lemma merged_wf:
  assumes "kv \<in> set (fst (merge_feats (parse_feats col) (g, n, r)))"
    and "CHR ''|'' \<notin> set g" "CHR ''|'' \<notin> set n" "CHR ''|'' \<notin> set r"
  shows "CHR ''='' \<notin> set (fst kv) \<and> CHR ''|'' \<notin> set (fst kv) \<and> CHR ''|'' \<notin> set (snd kv)"
proof -
  from merge_feats_entries [OF assms(1)]
  consider "kv \<in> set (parse_feats col)" | "kv = (''gen'', g)" | "kv = (''num'', n)" | "kv = (''rat'', r)"
    by blast
  then show ?thesis
  proof cases
    case 1
    then show ?thesis using parse_feats_wf by blast
  qed (use assms in simp_all)
qed

lemma merged_no_tab:
  assumes "CHR 0x09 \<notin> set col"
    and "CHR 0x09 \<notin> set g" "CHR 0x09 \<notin> set n" "CHR 0x09 \<notin> set r"
  shows "CHR 0x09 \<notin> set (format_feats (fst (merge_feats (parse_feats col) (g, n, r))))"
proof
  let ?f1 = "fst (merge_feats (parse_feats col) (g, n, r))"
  assume "CHR 0x09 \<in> set (format_feats ?f1)"
  moreover have "distinct (map fst ?f1)"
    by (intro merge_feats_distinct distinct_parse_feats)
  ultimately obtain kv where kv: "kv \<in> set ?f1" "CHR 0x09 \<in> set (fst kv) \<or> CHR 0x09 \<in> set (snd kv)"
    using format_feats_chars [of "CHR 0x09" ?f1] by auto
  from merge_feats_entries [OF kv(1)]
  consider "kv \<in> set (parse_feats col)" | "kv = (''gen'', g)" | "kv = (''num'', n)" | "kv = (''rat'', r)"
    by blast
  then show False
  proof cases
    case 1
    then have "set (fst kv) \<subseteq> set col" "set (snd kv) \<subseteq> set col" using parse_feats_wf by blast+
    with kv(2) assms(1) show False by auto
  qed (use kv(2) assms in auto)
qed

lemma merged_reparse:
  assumes "CHR ''|'' \<notin> set g" "CHR ''|'' \<notin> set n" "CHR ''|'' \<notin> set r" "rstrip r = r"
  shows "\<not> snd (merge_feats (parse_feats (format_feats (fst (merge_feats (parse_feats col) (g, n, r))))) (g, n, r))"
proof -
  let ?f1 = "fst (merge_feats (parse_feats col) (g, n, r))"
  have dist: "distinct (map fst ?f1)"
    by (intro merge_feats_distinct distinct_parse_feats)
  have wf: "\<forall>kv\<in>set ?f1. CHR ''='' \<notin> set (fst kv) \<and> CHR ''|'' \<notin> set (fst kv) \<and> CHR ''|'' \<notin> set (snd kv)"
    using merged_wf [OF _ assms(1-3)] by blast
  have g: "map_of ?f1 ''gen'' = Some g" and n: "map_of ?f1 ''num'' = Some n"
    and r: "map_of ?f1 ''rat'' = Some r"
    by (simp_all add: merge_feats_map_of)
  then have mem: "(''gen'', g) \<in> set ?f1" "(''num'', n) \<in> set ?f1" "(''rat'', r) \<in> set ?f1"
    by (auto dest: map_of_SomeD)
  then have len: "2 \<le> length ?f1" by (intro length_ge_2I [of "(''gen'', g)" _ "(''num'', n)"]) simp_all
  have rat: "''rat'' \<in> fst ` set ?f1" using mem(3) by force
  have gt: "\<exists>t'\<in>fst ` set ?f1. ''gen'' < t'" "\<exists>t'\<in>fst ` set ?f1. ''num'' < t'"
    using rat by (intro bexI [of _ "''rat''"]; simp)+
  have ls: "lstrip ''gen'' = ''gen''" "lstrip ''num'' = ''num''" "lstrip ''rat'' = ''rat''"
    by (simp_all add: lstrip_def isspace_def)
  have "map_of (parse_feats (format_feats ?f1)) ''gen'' = Some g"
    using gt(1) ls(1) by (intro parse_format_key [OF dist wf len g]) simp_all
  moreover have "map_of (parse_feats (format_feats ?f1)) ''num'' = Some n"
    using gt(2) ls(2) by (intro parse_format_key [OF dist wf len n]) simp_all
  moreover have "map_of (parse_feats (format_feats ?f1)) ''rat'' = Some r"
    using assms(4) ls(3) by (intro parse_format_key [OF dist wf len r]) simp_all
  ultimately show ?thesis by (simp add: merge_feats_unchanged)
qed

lemma merged_has_eq:
  "CHR ''='' \<in> set (format_feats (fst (merge_feats f (g, n, r))))"
proof -
  let ?f1 = "fst (merge_feats f (g, n, r))"
  have "map_of ?f1 ''gen'' = Some g" by (simp add: merge_feats_map_of)
  then have "?f1 \<noteq> []" by auto
  then show ?thesis
    using join_fmt_has_eq [of "sorted_items ?f1" "''|''"]
    by (simp add: format_feats_sorted_items sorted_items_Nil)
qed

lemma line_hit_SomeD:
  "line_hit L ln = Some (cols, k, v) \<Longrightarrow>
     token_cols ln = Some cols \<and> choose_conllu_key (parse_misc (cols ! 9)) = Some k
     \<and> k \<noteq> [] \<and> L k = Some v"
  by (auto simp: line_hit_def split: option.splits if_splits)

lemma line_result_unchanged: "\<not> snd (line_result L ln) \<Longrightarrow> line_result L ln = (ln, False)"
  by (auto simp: line_result_def split: option.splits prod.splits if_splits)

lemma line_result_changed:
  assumes "snd (line_result L ln)"
  obtains cols k g n r where "line_hit L ln = Some (cols, k, (g, n, r))"
    and "snd (merge_feats (parse_feats (cols ! 5)) (g, n, r))"
    and "fst (line_result L ln)
          = join [CHR 0x09] (cols[5 := format_feats (fst (merge_feats (parse_feats (cols ! 5)) (g, n, r)))])"
  using assms by (auto simp: line_result_def split: option.splits prod.splits if_splits)

lemma line_result_idem:
  assumes wfL: "\<forall>k g n r. L k = Some (g, n, r) \<longrightarrow>
      CHR 0x09 \<notin> set g \<and> CHR 0x09 \<notin> set n \<and> CHR 0x09 \<notin> set r
      \<and> CHR ''|'' \<notin> set g \<and> CHR ''|'' \<notin> set n \<and> CHR ''|'' \<notin> set r \<and> rstrip r = r"
  shows "line_result L (fst (line_result L ln)) = (fst (line_result L ln), False)"
proof (cases "snd (line_result L ln)")
  case False
  then show ?thesis by (simp add: line_result_unchanged)
next
  case True
  then obtain cols k g n r where hit: "line_hit L ln = Some (cols, k, (g, n, r))"
    and res: "fst (line_result L ln)
          = join [CHR 0x09] (cols[5 := format_feats (fst (merge_feats (parse_feats (cols ! 5)) (g, n, r)))])"
    by (rule line_result_changed)
  let ?s = "format_feats (fst (merge_feats (parse_feats (cols ! 5)) (g, n, r)))"
  let ?new = "join [CHR 0x09] (cols[5 := ?s])"
  from hit have tc: "token_cols ln = Some cols"
    and key: "choose_conllu_key (parse_misc (cols ! 9)) = Some k" "k \<noteq> []" "L k = Some (g, n, r)"
    by (auto dest: line_hit_SomeD)
  from tc have cols: "cols = split (CHR 0x09) ln" "10 \<le> length cols"
    by (auto dest: token_cols_SomeD)
  from key(3) wfL have v: "CHR 0x09 \<notin> set g" "CHR 0x09 \<notin> set n" "CHR 0x09 \<notin> set r"
    "CHR ''|'' \<notin> set g" "CHR ''|'' \<notin> set n" "CHR ''|'' \<notin> set r" "rstrip r = r"
    by blast+
  have "cols ! 5 \<in> set cols" using cols(2) by simp
  then have "CHR 0x09 \<notin> set (cols ! 5)" using cols(1) split_fields_sep by blast
  then have notab: "CHR 0x09 \<notin> set ?s" using v(1-3) by (rule merged_no_tab)
  have "token_cols ?new = Some (cols[5 := ?s])"
    using tc notab merged_has_eq by (rule token_cols_replace) (simp add: isspace_def)
  moreover have "(cols[5 := ?s]) ! 9 = cols ! 9" "(cols[5 := ?s]) ! 5 = ?s"
    using cols(2) by simp_all
  ultimately have hit': "line_hit L ?new = Some (cols[5 := ?s], k, (g, n, r))"
    using key by (simp add: line_hit_def)
  have "\<not> snd (merge_feats (parse_feats ?s) (g, n, r))"
    using v(4-7) by (rule merged_reparse)
  with hit' have "line_result L ?new = (?new, False)"
    using cols(2) by (auto simp: line_result_def split: prod.splits)
  with res show ?thesis by simp
qed

lemma line_result_frame:
  assumes "\<forall>k g n r. L k = Some (g, n, r) \<longrightarrow>
      CHR 0x09 \<notin> set g \<and> CHR 0x09 \<notin> set n \<and> CHR 0x09 \<notin> set r"
  shows "fst (line_result L ln) = ln
       \<or> (\<exists>s. 10 \<le> length (split (CHR 0x09) ln)
              \<and> split (CHR 0x09) (fst (line_result L ln)) = (split (CHR 0x09) ln)[5 := s])"
proof (cases "snd (line_result L ln)")
  case False
  then show ?thesis by (simp add: line_result_unchanged)
next
  case True
  then obtain cols k g n r where hit: "line_hit L ln = Some (cols, k, (g, n, r))"
    and res: "fst (line_result L ln)
          = join [CHR 0x09] (cols[5 := format_feats (fst (merge_feats (parse_feats (cols ! 5)) (g, n, r)))])"
    by (rule line_result_changed)
  let ?s = "format_feats (fst (merge_feats (parse_feats (cols ! 5)) (g, n, r)))"
  from hit have tc: "token_cols ln = Some cols" and key: "L k = Some (g, n, r)"
    by (auto dest: line_hit_SomeD)
  from tc have cols: "cols = split (CHR 0x09) ln" "10 \<le> length cols"
    by (auto dest: token_cols_SomeD)
  from key assms have v: "CHR 0x09 \<notin> set g" "CHR 0x09 \<notin> set n" "CHR 0x09 \<notin> set r"
    by blast+
  have "cols ! 5 \<in> set cols" using cols(2) by simp
  then have "CHR 0x09 \<notin> set (cols ! 5)" using cols(1) split_fields_sep by blast
  then have notab: "CHR 0x09 \<notin> set ?s" using v by (rule merged_no_tab)
  have "token_cols (join [CHR 0x09] (cols[5 := ?s])) = Some (cols[5 := ?s])"
    using tc notab merged_has_eq by (rule token_cols_replace) (simp add: isspace_def)
  then have "split (CHR 0x09) (join [CHR 0x09] (cols[5 := ?s])) = cols[5 := ?s]"
    by (auto dest: token_cols_SomeD)
  with res cols show ?thesis by auto
qed

lemma line_hit_None_unchanged: "line_hit L ln = None \<Longrightarrow> line_result L ln = (ln, False)"
  by (simp add: line_result_def)

lemma sync_line_pass:
  "line_hit L ln = None \<Longrightarrow>
     out (sync_line L st ln) = out st @ [ln] \<and> matched (sync_line L st ln) = matched st
     \<and> updated (sync_line L st ln) = updated st"
  by (simp add: sync_line_out sync_line_updated sync_line_matched line_hit_None_unchanged)

lemma line_hit_NoneI:
  "length (split (CHR 0x09) ln) < 10
   \<or> choose_conllu_key (parse_misc (split (CHR 0x09) ln ! 9)) = None
   \<or> choose_conllu_key (parse_misc (split (CHR 0x09) ln ! 9)) = Some []
   \<or> (\<exists>k. choose_conllu_key (parse_misc (split (CHR 0x09) ln ! 9)) = Some k \<and> L k = None)
   \<Longrightarrow> line_hit L ln = None"
  by (auto simp: line_hit_def token_cols_def split: option.splits)

lemma line_hit_SomeI:
  "strip ln \<noteq> [] \<Longrightarrow> \<not> startswith ln ''#'' \<Longrightarrow> 10 \<le> length (split (CHR 0x09) ln) \<Longrightarrow>
   choose_conllu_key (parse_misc (split (CHR 0x09) ln ! 9)) = Some k \<Longrightarrow> k \<noteq> [] \<Longrightarrow>
   L k = Some v \<Longrightarrow> line_hit L ln = Some (split (CHR 0x09) ln, k, v)"
  by (simp add: line_hit_def token_cols_def)

text \<open>
  On a line whose key is found, the loop body appends the line rebuilt around the
  serialized merged map when the merge changed something, and the line itself otherwise.
\<close>

lemma sync_line_hit_out:
  assumes "strip ln \<noteq> []" and "\<not> startswith ln ''#''"
    and "10 \<le> length (split (CHR 0x09) ln)"
    and "choose_conllu_key (parse_misc (split (CHR 0x09) ln ! 9)) = Some k" and "k \<noteq> []"
    and "L k = Some v"
  shows "out (sync_line L st ln) = out st @
     [if snd (merge_feats (parse_feats (split (CHR 0x09) ln ! 5)) v)
      then join [CHR 0x09]
             ((split (CHR 0x09) ln)[5 := format_feats (fst (merge_feats (parse_feats (split (CHR 0x09) ln ! 5)) v))])
      else ln]"
proof -
  have "line_hit L ln = Some (split (CHR 0x09) ln, k, v)"
    using assms by (rule line_hit_SomeI)
  then show ?thesis
    by (auto simp: sync_line_out line_result_def split: prod.splits)
qed

section \<open>The feature map of the line the synchronizer writes\<close>

lemma parse_format_keys:
  assumes dist: "distinct (map fst d)"
    and wf: "\<forall>kv\<in>set d. CHR ''='' \<notin> set (fst kv) \<and> CHR ''|'' \<notin> set (fst kv) \<and> CHR ''|'' \<notin> set (snd kv)"
    and len: "2 \<le> length d"
    and clean: "\<forall>k\<in>fst ` set d. lstrip k = k"
  shows "fst ` set (parse_feats (format_feats d)) \<subseteq> fst ` set d"
proof -
  from len obtain k1 v1 mid km vm where dec: "sorted_items d = (k1, v1) # mid @ [(km, vm)]"
    by (rule sorted_items_decomp)
  have keys: "set (map fst (sorted_items d)) = fst ` set d"
    by (simp add: map_fst_sorted_items)
  with dec have k1: "k1 \<in> fst ` set d" by auto
  with clean have "lstrip k1 = k1" by blast
  with parse_format_decomp [OF dist wf dec]
  have "map_of (parse_feats (format_feats d))
        = map_of (rev ((k1, v1) # mid @ [(km, rstrip vm)]))"
    by (simp only: map_of_foldl_update) simp
  then have "dom (map_of (parse_feats (format_feats d)))
        = dom (map_of (rev ((k1, v1) # mid @ [(km, rstrip vm)])))"
    by simp
  then have "fst ` set (parse_feats (format_feats d)) = fst ` set ((k1, v1) # mid @ [(km, rstrip vm)])"
    by (simp only: dom_map_of_conv_image_fst set_rev)
  also have "\<dots> = fst ` set ((k1, v1) # mid @ [(km, vm)])" by simp
  also have "\<dots> = fst ` set d" using keys dec by simp
  finally show ?thesis by simp
qed

lemma merge_feats_keys:
  "fst ` set (fst (merge_feats d (g, n, r))) \<subseteq> fst ` set d \<union> {''gen'', ''num'', ''rat''}"
proof
  fix k assume "k \<in> fst ` set (fst (merge_feats d (g, n, r)))"
  then obtain kv where "kv \<in> set (fst (merge_feats d (g, n, r)))" "k = fst kv" by auto
  with merge_feats_entries [of kv d g n r] show "k \<in> fst ` set d \<union> {''gen'', ''num'', ''rat''}"
    by auto
qed

lemma line_result_feats:
  assumes wfL: "\<forall>k g n r. L k = Some (g, n, r) \<longrightarrow>
      CHR 0x09 \<notin> set g \<and> CHR 0x09 \<notin> set n \<and> CHR 0x09 \<notin> set r
      \<and> CHR ''|'' \<notin> set g \<and> CHR ''|'' \<notin> set n \<and> CHR ''|'' \<notin> set r"
    and clean: "\<forall>(k, v)\<in>set (parse_feats (split (CHR 0x09) ln ! 5)). lstrip k = k \<and> rstrip v = v"
  shows "fst ` set (parse_feats (split (CHR 0x09) (fst (line_result L ln)) ! 5))
           \<subseteq> fst ` set (parse_feats (split (CHR 0x09) ln ! 5)) \<union> {''gen'', ''num'', ''rat''}
       \<and> (\<forall>k. k \<notin> {''gen'', ''num'', ''rat''} \<longrightarrow>
             map_of (parse_feats (split (CHR 0x09) (fst (line_result L ln)) ! 5)) k
             = map_of (parse_feats (split (CHR 0x09) ln ! 5)) k)"
proof (cases "snd (line_result L ln)")
  case False
  then show ?thesis by (auto simp: line_result_unchanged)
next
  case True
  then obtain cols k g n r where hit: "line_hit L ln = Some (cols, k, (g, n, r))"
    and res: "fst (line_result L ln)
          = join [CHR 0x09] (cols[5 := format_feats (fst (merge_feats (parse_feats (cols ! 5)) (g, n, r)))])"
    by (rule line_result_changed)
  let ?f0 = "parse_feats (cols ! 5)"
  let ?f1 = "fst (merge_feats ?f0 (g, n, r))"
  let ?s = "format_feats ?f1"
  from hit have tc: "token_cols ln = Some cols" and key: "L k = Some (g, n, r)"
    by (auto dest: line_hit_SomeD)
  from tc have cols: "cols = split (CHR 0x09) ln" "10 \<le> length cols"
    by (auto dest: token_cols_SomeD)
  from key wfL have v: "CHR 0x09 \<notin> set g" "CHR 0x09 \<notin> set n" "CHR 0x09 \<notin> set r"
    "CHR ''|'' \<notin> set g" "CHR ''|'' \<notin> set n" "CHR ''|'' \<notin> set r"
    by blast+
  have "cols ! 5 \<in> set cols" using cols(2) by simp
  then have "CHR 0x09 \<notin> set (cols ! 5)" using cols(1) split_fields_sep by blast
  then have notab: "CHR 0x09 \<notin> set ?s" using v(1-3) by (rule merged_no_tab)
  have "token_cols (join [CHR 0x09] (cols[5 := ?s])) = Some (cols[5 := ?s])"
    using tc notab merged_has_eq by (rule token_cols_replace) (simp add: isspace_def)
  then have "split (CHR 0x09) (join [CHR 0x09] (cols[5 := ?s])) = cols[5 := ?s]"
    by (auto dest: token_cols_SomeD)
  with res cols(2) have col': "split (CHR 0x09) (fst (line_result L ln)) ! 5 = ?s" by simp
  have dist: "distinct (map fst ?f1)"
    by (intro merge_feats_distinct distinct_parse_feats)
  have wf: "\<forall>kv\<in>set ?f1. CHR ''='' \<notin> set (fst kv) \<and> CHR ''|'' \<notin> set (fst kv) \<and> CHR ''|'' \<notin> set (snd kv)"
    using merged_wf [OF _ v(4-6)] by blast
  have m1: "map_of ?f1 = (map_of ?f0)(''gen'' \<mapsto> g, ''num'' \<mapsto> n, ''rat'' \<mapsto> r)"
    by (rule merge_feats_map_of)
  then have mem: "(''gen'', g) \<in> set ?f1" "(''num'', n) \<in> set ?f1"
    by (auto intro: map_of_SomeD)
  then have len: "2 \<le> length ?f1" by (intro length_ge_2I [of "(''gen'', g)" _ "(''num'', n)"]) simp_all
  have k1: "fst ` set ?f1 \<subseteq> fst ` set ?f0 \<union> {''gen'', ''num'', ''rat''}"
    by (rule merge_feats_keys)
  have ls: "lstrip ''gen'' = ''gen''" "lstrip ''num'' = ''num''" "lstrip ''rat'' = ''rat''"
    by (simp_all add: lstrip_def isspace_def)
  have cl0: "\<forall>k\<in>fst ` set ?f0. lstrip k = k" using clean cols(1) by fastforce
  have cl1: "\<forall>k\<in>fst ` set ?f1. lstrip k = k"
  proof
    fix k assume "k \<in> fst ` set ?f1"
    with k1 have "k \<in> fst ` set ?f0 \<or> k = ''gen'' \<or> k = ''num'' \<or> k = ''rat''" by auto
    with cl0 ls show "lstrip k = k" by auto
  qed
  have sub: "fst ` set (parse_feats ?s) \<subseteq> fst ` set ?f1"
    using dist wf len cl1 by (rule parse_format_keys)
  have vals: "map_of (parse_feats ?s) t = map_of ?f0 t" if t: "t \<notin> {''gen'', ''num'', ''rat''}" for t
  proof (cases "map_of ?f0 t")
    case None
    with t m1 have "map_of ?f1 t = None" by simp
    then have "t \<notin> fst ` set ?f1" by (simp add: map_of_eq_None_iff)
    with sub have "t \<notin> fst ` set (parse_feats ?s)" by blast
    then have "map_of (parse_feats ?s) t = None" by (simp only: map_of_eq_None_iff) simp
    with None show ?thesis by simp
  next
    case (Some w)
    then have "(t, w) \<in> set ?f0" by (rule map_of_SomeD)
    with clean cols(1) have tw: "lstrip t = t" "rstrip w = w" by fastforce+
    from Some t m1 have "map_of ?f1 t = Some w" by simp
    from parse_format_key [OF dist wf len this tw(1)] tw(2) Some show ?thesis by simp
  qed
  from sub k1 vals col' cols(1) show ?thesis by auto
qed

section \<open>Properties of the lookup builder\<close>

lemma takeWhile_no_sep: "sep \<notin> set s \<Longrightarrow> takeWhile (\<lambda>c. c \<noteq> sep) s = s"
  by (induction s) auto

lemma split1_first: "split1 sep s ! 0 = takeWhile (\<lambda>c. c \<noteq> sep) s"
  by (simp add: split1_def takeWhile_no_sep)

lemma bw_tok_eq:
  assumes "bw = replicate j CHR ''+'' @ tok @ rest"
    and "CHR ''/'' \<notin> set tok" and "take 1 tok \<noteq> ''+''" and "rest = [] \<or> take 1 rest = ''/''"
  shows "lstrip_chars ''+'' (split1 CHR ''/'' bw ! 0) = tok"
proof -
  have nosl: "CHR ''/'' \<notin> set (replicate j CHR ''+'' @ tok)" using assms(2) by auto
  have "takeWhile (\<lambda>c. c \<noteq> CHR ''/'') bw = replicate j CHR ''+'' @ tok"
  proof (cases rest)
    case Nil
    with assms(1) takeWhile_no_sep [OF nosl] show ?thesis by simp
  next
    case (Cons c cs)
    with assms(4) have "c = CHR ''/''" by simp
    with Cons assms(1) takeWhile_neq_sep [OF nosl, of cs] show ?thesis by simp
  qed
  moreover have "dropWhile (\<lambda>c. c \<in> set ''+'') (replicate j CHR ''+'' @ tok) = tok"
    using assms(3) by (cases tok) (simp_all add: dropWhile_append)
  ultimately show ?thesis by (simp add: lstrip_chars_def split1_first)
qed

section \<open>Properties of the pair extractor\<close>

lemma dep_rows_mem:
  assumes "r \<in> set (dep_rows i tokens (dep_id, dep))"
  shows "deprel dep = ''MOD'' \<and> is_adj_token (upos dep) (xpos dep) (misc dep)
       \<and> (\<exists>head_tok. map_of tokens (head dep) = Some head_tok
             \<and> is_noun_like (misc head_tok) (upos head_tok) (xpos head_tok)
             \<and> r = make_row i dep_id dep (head dep) head_tok)"
proof (cases "map_of tokens (head dep)")
  case None
  with assms show ?thesis by (simp add: dep_rows_def Let_def split: if_splits)
next
  case (Some head_tok)
  with assms show ?thesis by (simp add: dep_rows_def Let_def split: if_splits)
qed

lemma dep_rows_no_head: "map_of tokens (head dep) = None \<Longrightarrow> dep_rows i tokens (dep_id, dep) = []"
  by (simp add: dep_rows_def Let_def)

lemma main_loop_mem:
  assumes "main_loop i rows sents = Inr rows'" and "r \<in> set rows'"
  shows "r \<in> set rows
       \<or> (\<exists>j<length sents. \<exists>tokens. add_token_lines [] (sents ! j) = Inr tokens
              \<and> r \<in> set (sentence_rows (i + j) tokens))"
  using assms
proof (induction sents arbitrary: i rows)
  case Nil
  then show ?case by simp
next
  case (Cons s sents)
  from Cons.prems(1) obtain tokens where tk: "add_token_lines [] s = Inr tokens"
    and rest: "main_loop (i + 1) (rows @ sentence_rows i tokens) sents = Inr rows'"
    by (auto split: sum.splits)
  from Cons.IH [OF rest Cons.prems(2)]
  consider "r \<in> set rows" | "r \<in> set (sentence_rows i tokens)"
    | j tokens' where "j < length sents" "add_token_lines [] (sents ! j) = Inr tokens'"
        "r \<in> set (sentence_rows (i + 1 + j) tokens')"
    by auto
  then show ?case
  proof cases
    case 1
    then show ?thesis by simp
  next
    case 2
    with tk have "0 < length (s # sents) \<and> add_token_lines [] ((s # sents) ! 0) = Inr tokens
        \<and> r \<in> set (sentence_rows (i + 0) tokens)" by simp
    then show ?thesis by blast
  next
    case 3
    then have "Suc j < length (s # sents) \<and> add_token_lines [] ((s # sents) ! Suc j) = Inr tokens'
        \<and> r \<in> set (sentence_rows (i + Suc j) tokens')" by simp
    then show ?thesis by blast
  qed
qed

lemma add_token_lines_entries:
  assumes "add_token_lines tokens lns = Inr tokens'" and "(k, t) \<in> set tokens'"
  shows "(k, t) \<in> set tokens
       \<or> (\<exists>ln\<in>set lns. \<exists>t0. parse_token_line ln = Inr (Some t0) \<and> k = tok_id t0 \<and> t = with_maps t0)"
  using assms
proof (induction lns arbitrary: tokens)
  case Nil
  then show ?case by simp
next
  case (Cons ln lns)
  show ?case
  proof (cases "parse_token_line ln")
    case (Inl e)
    with Cons.prems show ?thesis by simp
  next
    case (Inr res)
    show ?thesis
    proof (cases res)
      case None
      with Inr Cons.prems have "add_token_lines tokens lns = Inr tokens'" by simp
      from Cons.IH [OF this Cons.prems(2)] show ?thesis by auto
    next
      case (Some t0)
      with Inr Cons.prems
      have "add_token_lines (AList.update (tok_id t0) (with_maps t0) tokens) lns = Inr tokens'"
        by simp
      from Cons.IH [OF this Cons.prems(2)]
      have "(k, t) \<in> set (AList.update (tok_id t0) (with_maps t0) tokens)
          \<or> (\<exists>ln\<in>set lns. \<exists>t0. parse_token_line ln = Inr (Some t0) \<and> k = tok_id t0 \<and> t = with_maps t0)" .
      moreover have "(k, t) \<in> set (AList.update (tok_id t0) (with_maps t0) tokens)
          \<Longrightarrow> (k, t) \<in> set tokens \<or> (k = tok_id t0 \<and> t = with_maps t0)"
        using set_update_subset [of "tok_id t0" "with_maps t0" tokens] by auto
      ultimately show ?thesis using Inr Some by auto
    qed
  qed
qed

lemma dropWhile_none: "\<forall>c\<in>set s. \<not> P c \<Longrightarrow> dropWhile P s = s"
  by (cases s) auto

lemma py_int_isdigit:
  assumes "isdigit s" and "py_int s = Inr h"
  shows "list_all isdecimal s"
proof (rule ccontr)
  assume "\<not> list_all isdecimal s"
  then obtain c where c: "c \<in> set s" "\<not> isdecimal c" by (auto simp: list_all_iff)
  from assms(1) have cls: "\<forall>c\<in>set s. isdecimal c \<or> of_char c \<in> set [178, 179, 185 :: nat]"
    and ne: "s \<noteq> []"
    by (auto simp: isdigit_def list_all_iff)
  have nosp: "\<forall>c\<in>set s. \<not> int_space c"
    using cls by (auto simp: int_space_def isdecimal_def)
  have nous: "\<forall>c\<in>set s. c \<noteq> CHR ''_'' \<and> c \<noteq> CHR ''-'' \<and> c \<noteq> CHR ''+''"
    using cls by (auto simp: isdecimal_def)
  have t: "dropWhile int_space s = s" using nosp by (rule dropWhile_none)
  have sign: "take 1 s \<noteq> ''-''" "take 1 s \<noteq> ''+''"
    using nous ne by (cases s; auto)+
  let ?rest = "dropWhile (\<lambda>c. isdecimal c \<or> c = CHR ''_'') s"
  have rne: "?rest \<noteq> []" using c nous by (auto simp: dropWhile_eq_Nil_conv)
  then have hr: "hd ?rest \<in> set ?rest" by (rule hd_in_set)
  then have "hd ?rest \<in> set s" by (rule set_dropWhileD)
  with nosp have "\<not> int_space (hd ?rest)" by blast
  with hr have "\<not> list_all int_space ?rest" unfolding list_all_iff by blast
  with t sign have "py_int s = Inl ValueError" by (simp add: py_int_def Let_def)
  with assms(2) show False by simp
qed

lemma parse_token_line_head:
  assumes "parse_token_line line = Inr (Some t)"
    and "\<not> (split (CHR 0x09) line ! 6 \<noteq> [] \<and> list_all isdecimal (split (CHR 0x09) line ! 6))"
  shows "head t = 0"
proof (cases "isdigit (split (CHR 0x09) line ! 6)")
  case True
  with assms(1) obtain h where "py_int (split (CHR 0x09) line ! 6) = Inr h"
    by (auto simp: parse_token_line_def Let_def split: if_splits sum.splits)
  with True have "list_all isdecimal (split (CHR 0x09) line ! 6)" by (rule py_int_isdigit)
  moreover from True have "split (CHR 0x09) line ! 6 \<noteq> []" by (simp add: isdigit_def)
  ultimately show ?thesis using assms(2) by simp
next
  case False
  with assms(1) show ?thesis
    by (auto simp: parse_token_line_def Let_def split: if_splits sum.splits)
qed

lemma add_token_lines_keys:
  assumes "add_token_lines [] sent_lines = Inr tokens"
    and "\<forall>ln\<in>set sent_lines. \<forall>t. parse_token_line ln = Inr (Some t) \<longrightarrow> tok_id t \<noteq> k"
  shows "map_of tokens k = None"
proof (rule ccontr)
  assume "map_of tokens k \<noteq> None"
  then obtain t where "(k, t) \<in> set tokens" by (auto dest: map_of_SomeD)
  from add_token_lines_entries [OF assms(1) this] assms(2) show False by auto
qed

section \<open>The claims\<close>

text \<open>
  Each claim is stated on the functions of the two scripts as modelled above. Where a
  claim fails on the code, the failing input comes first, then the statement that holds.
\<close>

subsection \<open>C1: lines of multi-word tokens and empty nodes\<close>

text \<open>
  C1, as stated, has the synchronizer keep every line whose id contains \<open>-\<close> or \<open>.\<close>
  byte for byte. The synchronizer never reads the id column: the line \<open>1-2\<close> below
  carries a key that the lookup knows, and its feature column is rewritten, while
  \<open>parse_token_line\<close> returns \<open>None\<close> for it.
\<close>

theorem C1_multiword_lines_counterexample:
  "CHR ''-'' \<in> set (split (CHR 0x09) (join [CHR 0x09] [''1-2'', ''foo'', ''_'', ''_'', ''_'', ''_'', ''_'', ''_'', ''_'', ''surface_plus_bw=XYZ'']) ! 0)
   \<and> parse_token_line (join [CHR 0x09] [''1-2'', ''foo'', ''_'', ''_'', ''_'', ''_'', ''_'', ''_'', ''_'', ''surface_plus_bw=XYZ'']) = Inr None
   \<and> sync_conllu_with_magold
        [join [CHR 0x09] [''1-2'', ''foo'', ''_'', ''_'', ''_'', ''_'', ''_'', ''_'', ''_'', ''surface_plus_bw=XYZ'']]
        [''XYZ'' \<mapsto> (''f'', ''p'', ''i'')]
     = ([join [CHR 0x09] [''1-2'', ''foo'', ''_'', ''_'', ''_'', ''gen=f|num=p|rat=i'', ''_'', ''_'', ''_'', ''surface_plus_bw=XYZ'']], 1, 1, [])"
  by code_simp

text \<open>
  C1, amended: for every line whose first tab-separated field contains \<open>-\<close> or \<open>.\<close>,
  \<open>parse_token_line\<close> returns \<open>None\<close> and raises nothing; and the synchronizer, which
  treats the line like any other, appends it unchanged and counts neither a match nor
  an update whenever the line has fewer than ten fields, or its annotation map gives no
  key or the empty key, or the key is not in the lookup.
\<close>

theorem C1_multiword_lines:
  assumes "CHR ''-'' \<in> set (split (CHR 0x09) ln ! 0) \<or> CHR ''.'' \<in> set (split (CHR 0x09) ln ! 0)"
  shows "parse_token_line ln = Inr None
       \<and> (length (split (CHR 0x09) ln) < 10
            \<or> choose_conllu_key (parse_misc (split (CHR 0x09) ln ! 9)) = None
            \<or> choose_conllu_key (parse_misc (split (CHR 0x09) ln ! 9)) = Some []
            \<or> (\<exists>k. choose_conllu_key (parse_misc (split (CHR 0x09) ln ! 9)) = Some k \<and> L k = None)
          \<longrightarrow> out (sync_line L st ln) = out st @ [ln] \<and> matched (sync_line L st ln) = matched st
              \<and> updated (sync_line L st ln) = updated st)"
proof
  from assms show "parse_token_line ln = Inr None"
    by (auto simp: parse_token_line_def Let_def)
next
  show "length (split (CHR 0x09) ln) < 10
            \<or> choose_conllu_key (parse_misc (split (CHR 0x09) ln ! 9)) = None
            \<or> choose_conllu_key (parse_misc (split (CHR 0x09) ln ! 9)) = Some []
            \<or> (\<exists>k. choose_conllu_key (parse_misc (split (CHR 0x09) ln ! 9)) = Some k \<and> L k = None)
          \<longrightarrow> out (sync_line L st ln) = out st @ [ln] \<and> matched (sync_line L st ln) = matched st
              \<and> updated (sync_line L st ln) = updated st"
    using sync_line_pass [OF line_hit_NoneI, of ln L st] by blast
qed

text \<open>C1 on the line of the multi-word token \<open>1-2\<close> with an empty annotation column.\<close>

theorem C1_multiword_lines_witness:
  "parse_token_line (join [CHR 0x09] [''1-2'', ''foo'', ''_'', ''_'', ''_'', ''_'', ''_'', ''_'', ''_'', ''_'']) = Inr None
   \<and> out (sync_line [''XYZ'' \<mapsto> (''f'', ''p'', ''i'')] \<lparr>out = [], matched = 0, updated = 0, debug_hits = []\<rparr>
            (join [CHR 0x09] [''1-2'', ''foo'', ''_'', ''_'', ''_'', ''_'', ''_'', ''_'', ''_'', ''_'']))
     = [join [CHR 0x09] [''1-2'', ''foo'', ''_'', ''_'', ''_'', ''_'', ''_'', ''_'', ''_'', ''_'']]
   \<and> matched (sync_line [''XYZ'' \<mapsto> (''f'', ''p'', ''i'')] \<lparr>out = [], matched = 0, updated = 0, debug_hits = []\<rparr>
            (join [CHR 0x09] [''1-2'', ''foo'', ''_'', ''_'', ''_'', ''_'', ''_'', ''_'', ''_'', ''_''])) = 0
   \<and> updated (sync_line [''XYZ'' \<mapsto> (''f'', ''p'', ''i'')] \<lparr>out = [], matched = 0, updated = 0, debug_hits = []\<rparr>
            (join [CHR 0x09] [''1-2'', ''foo'', ''_'', ''_'', ''_'', ''_'', ''_'', ''_'', ''_'', ''_''])) = 0"
proof -
  let ?ln = "join [CHR 0x09] [''1-2'', ''foo'', ''_'', ''_'', ''_'', ''_'', ''_'', ''_'', ''_'', ''_'']"
  have id: "CHR ''-'' \<in> set (split (CHR 0x09) ?ln ! 0) \<or> CHR ''.'' \<in> set (split (CHR 0x09) ?ln ! 0)"
    by (simp add: split_def)
  have nokey: "choose_conllu_key (parse_misc (split (CHR 0x09) ?ln ! 9)) = None"
    by (simp add: split_def parse_misc_def strip_def lstrip_def rstrip_def isspace_def
        choose_conllu_key_def)
  from C1_multiword_lines [OF id, of "[''XYZ'' \<mapsto> (''f'', ''p'', ''i'')]"
      "\<lparr>out = [], matched = 0, updated = 0, debug_hits = []\<rparr>"] nokey
  show ?thesis by simp
qed

subsection \<open>C2: round trip of the codec\<close>

text \<open>
  C2, as stated, asks \<open>parse_feats (format_feats m) = m\<close> of every mapping with no \<open>=\<close>
  in its keys and values. A key with a \<open>|\<close> in it already breaks it: the mapping
  \<open>{"a|b": "c"}\<close> is written \<open>a|b=c\<close> and read back as \<open>{"b": "c"}\<close>.
\<close>

theorem C2_roundtrip_counterexample:
  "distinct (map fst [(''a|b'', ''c'')])
   \<and> CHR ''='' \<notin> set ''a|b'' \<and> CHR ''='' \<notin> set ''c''
   \<and> parse_feats (format_feats [(''a|b'', ''c'')]) = [(''b'', ''c'')]
   \<and> map_of (parse_feats (format_feats [(''a|b'', ''c'')])) ''b'' \<noteq> map_of [(''a|b'', ''c'')] ''b''"
  by (simp add: format_feats_def parse_feats_def strip_def lstrip_def rstrip_def isspace_def
      split_def add_part_def split1_def)

text \<open>
  C2, amended: for every dictionary \<open>m\<close> in which no key and no value contains \<open>=\<close> or
  \<open>|\<close>, and whose serialized form neither begins nor ends with whitespace (which
  \<open>parse_feats\<close> would strip), parsing the serialized form gives back the same mapping.
\<close>

theorem C2_roundtrip:
  assumes "distinct (map fst m)"
    and "\<forall>(k, v)\<in>set m. CHR ''='' \<notin> set k \<and> CHR ''|'' \<notin> set k
                        \<and> CHR ''='' \<notin> set v \<and> CHR ''|'' \<notin> set v"
    and "strip (format_feats m) = format_feats m"
  shows "map_of (parse_feats (format_feats m)) = map_of m"
proof (cases "m = []")
  case True
  then show ?thesis
    by (simp add: format_feats_def parse_feats_def strip_def lstrip_def rstrip_def isspace_def)
next
  case False
  have wf: "\<forall>kv\<in>set (sorted_items m). CHR ''='' \<notin> set (fst kv)
              \<and> CHR ''|'' \<notin> set (fst kv) \<and> CHR ''|'' \<notin> set (snd kv)"
    using assms(1,2) by (auto simp: set_sorted_items)
  have "parse_feats (format_feats m) = foldl (\<lambda>d (k, v). AList.update k v d) [] (sorted_items m)"
    using False wf assms(3)
    by (intro parse_feats_of_strip) (simp_all add: sorted_items_Nil format_feats_sorted_items)
  then show ?thesis
    using assms(1) by (simp add: map_of_foldl_update map_of_rev_sorted_items)
qed

text \<open>C2 at the mapping \<open>{"num": "s", "gen": "m", "x y": "a b"}\<close>.\<close>

theorem C2_roundtrip_witness:
  "distinct (map fst [(''num'', ''s''), (''gen'', ''m''), (''x y'', ''a b'')])
   \<and> strip (format_feats [(''num'', ''s''), (''gen'', ''m''), (''x y'', ''a b'')])
       = format_feats [(''num'', ''s''), (''gen'', ''m''), (''x y'', ''a b'')]
   \<and> map_of (parse_feats (format_feats [(''num'', ''s''), (''gen'', ''m''), (''x y'', ''a b'')]))
       = map_of [(''num'', ''s''), (''gen'', ''m''), (''x y'', ''a b'')]"
proof -
  let ?m = "[(''num'', ''s''), (''gen'', ''m''), (''x y'', ''a b'')]"
  have d: "distinct (map fst ?m)" by simp
  have w: "\<forall>(k, v)\<in>set ?m. CHR ''='' \<notin> set k \<and> CHR ''|'' \<notin> set k
                        \<and> CHR ''='' \<notin> set v \<and> CHR ''|'' \<notin> set v"
    by simp
  have s: "strip (format_feats ?m) = format_feats ?m"
    by (simp add: format_feats_def strip_def lstrip_def rstrip_def isspace_def)
  from d s C2_roundtrip [OF d w s] show ?thesis by blast
qed

subsection \<open>C3: idempotence of the synchronizer\<close>

text \<open>
  C3 is stated for every lookup. The analysis line
  \<open>*1.0 bw:k/X gen:f|a=b num:s rat:i\<close> gives the key \<open>k\<close> the gender value \<open>f|a=b\<close>.
  The first run writes the feature column \<open>gen=f|a=b|num=s|rat=i\<close>; the second run reads
  it back as four features with \<open>gen=f\<close>, finds the gender different from the lookup's,
  counts one more update and writes another column.
\<close>

theorem C3_sync_idempotent_counterexample:
  "sync_conllu_with_magold
     [join [CHR 0x09] [''1'', ''w'', ''_'', ''_'', ''_'', ''_'', ''0'', ''_'', ''_'', ''surface_plus_bw=k'']]
     (build_magold_lookup [''*1.0 bw:k/X gen:f|a=b num:s rat:i''])
   = ([join [CHR 0x09] [''1'', ''w'', ''_'', ''_'', ''_'', ''gen=f|a=b|num=s|rat=i'', ''0'', ''_'', ''_'',
                        ''surface_plus_bw=k'']], 1, 1, [])
   \<and> sync_conllu_with_magold
     [join [CHR 0x09] [''1'', ''w'', ''_'', ''_'', ''_'', ''gen=f|a=b|num=s|rat=i'', ''0'', ''_'', ''_'',
                       ''surface_plus_bw=k'']]
     (build_magold_lookup [''*1.0 bw:k/X gen:f|a=b num:s rat:i''])
   = ([join [CHR 0x09] [''1'', ''w'', ''_'', ''_'', ''_'', ''a=b|gen=f|a=b|num=s|rat=i'', ''0'', ''_'', ''_'',
                        ''surface_plus_bw=k'']], 1, 1, [])"
  by code_simp

text \<open>
  C3, amended: for every list of tree lines and every lookup whose gender, number and
  rationality values contain no \<open>|\<close> and no tab, and whose rationality values do not end
  with whitespace, a second run over the output of the first, with the same lookup,
  updates nothing and returns its input.
\<close>

theorem C3_sync_idempotent:
  assumes "\<forall>k g n r. L k = Some (g, n, r) \<longrightarrow>
      CHR 0x09 \<notin> set g \<and> CHR 0x09 \<notin> set n \<and> CHR 0x09 \<notin> set r
      \<and> CHR ''|'' \<notin> set g \<and> CHR ''|'' \<notin> set n \<and> CHR ''|'' \<notin> set r \<and> rstrip r = r"
  shows "case sync_conllu_with_magold conllu_lines L of
           (out1, m1, u1, d1) \<Rightarrow>
             (case sync_conllu_with_magold out1 L of
                (out2, m2, u2, d2) \<Rightarrow> u2 = 0 \<and> out2 = out1)"
proof -
  let ?f = "\<lambda>ln. fst (line_result L ln)"
  have idem: "\<And>ln. line_result L (?f ln) = (?f ln, False)"
    using assms by (rule line_result_idem)
  have "map ?f (map ?f conllu_lines) = map ?f conllu_lines"
    by (simp add: idem)
  moreover have "filter (\<lambda>ln. snd (line_result L ln)) (map ?f conllu_lines) = []"
    by (simp add: filter_empty_conv idem)
  ultimately show ?thesis
    by (simp add: sync_conllu_with_magold_def Let_def sync_loop_out sync_loop_updated)
qed

text \<open>
  C3 on the two-token sentence of the end-to-end example and the lookup of its analysis
  line: the first run rewrites the first token, the second run changes nothing.
\<close>

theorem C3_sync_idempotent_witness:
  "case sync_conllu_with_magold
          [join [CHR 0x09] [''1'', ''ABC'', ''lemma1'', ''NOM'', ''NOM'', ''gen=m|num=s'', ''2'', ''MOD'',
                            ''_'', ''surface_plus_bw=XYZ''],
           join [CHR 0x09] [''2'', ''DEF'', ''lemma2'', ''NOM'', ''NOM'', ''_'', ''0'', ''ROOT'', ''_'',
                            ''bw=NOUN_head'']]
          [''XYZ'' \<mapsto> (''f'', ''p'', ''i''), ''ADJ'' \<mapsto> (''f'', ''p'', ''i'')] of
     (out1, m1, u1, d1) \<Rightarrow>
       (case sync_conllu_with_magold out1
               [''XYZ'' \<mapsto> (''f'', ''p'', ''i''), ''ADJ'' \<mapsto> (''f'', ''p'', ''i'')] of
          (out2, m2, u2, d2) \<Rightarrow> u2 = 0 \<and> out2 = out1)"
  by (rule C3_sync_idempotent) (simp add: rstrip_def isspace_def)

subsection \<open>C4: lines that already agree with the lookup\<close>

text \<open>
  C4, as stated, counts a match for every line whose key is in the lookup. The
  synchronizer refuses the empty key (\<^verbatim>\<open>if not key\<close>): the line below resolves to the
  key \<open>""\<close>, which this lookup holds with the very triple of the line, and the line is
  passed through with the matched counter left at zero.
\<close>

theorem C4_sync_conservative_counterexample:
  "choose_conllu_key (parse_misc (split (CHR 0x09) (join [CHR 0x09] [''1'', ''a'', ''_'', ''_'', ''_'', ''gen=f|num=p|rat=i'', ''0'', ''_'', ''_'', ''surface_plus_bw='']) ! 9)) = Some []
   \<and> parse_feats (split (CHR 0x09) (join [CHR 0x09] [''1'', ''a'', ''_'', ''_'', ''_'', ''gen=f|num=p|rat=i'', ''0'', ''_'', ''_'', ''surface_plus_bw='']) ! 5)
       = [(''gen'', ''f''), (''num'', ''p''), (''rat'', ''i'')]
   \<and> sync_conllu_with_magold
        [join [CHR 0x09] [''1'', ''a'', ''_'', ''_'', ''_'', ''gen=f|num=p|rat=i'', ''0'', ''_'', ''_'', ''surface_plus_bw='']]
        [[] \<mapsto> (''f'', ''p'', ''i'')]
     = ([join [CHR 0x09] [''1'', ''a'', ''_'', ''_'', ''_'', ''gen=f|num=p|rat=i'', ''0'', ''_'', ''_'', ''surface_plus_bw='']], 0, 0, [])"
  by code_simp

text \<open>
  C4, amended: for every line that is not blank, is no comment, has ten fields at least
  and whose annotation map resolves to a non-empty key present in the lookup, if the
  parsed feature map already has the gender, number and rationality of the lookup's
  triple, then the loop body appends the line itself (not a re-serialization),
  increments the matched counter and leaves the updated counter.
\<close>

theorem C4_sync_conservative:
  assumes "strip ln \<noteq> []" and "\<not> startswith ln ''#''"
    and "10 \<le> length (split (CHR 0x09) ln)"
    and "choose_conllu_key (parse_misc (split (CHR 0x09) ln ! 9)) = Some k" and "k \<noteq> []"
    and "L k = Some (g, n, r)"
    and "map_of (parse_feats (split (CHR 0x09) ln ! 5)) ''gen'' = Some g"
    and "map_of (parse_feats (split (CHR 0x09) ln ! 5)) ''num'' = Some n"
    and "map_of (parse_feats (split (CHR 0x09) ln ! 5)) ''rat'' = Some r"
  shows "out (sync_line L st ln) = out st @ [ln]
       \<and> matched (sync_line L st ln) = matched st + 1
       \<and> updated (sync_line L st ln) = updated st"
proof -
  have hit: "line_hit L ln = Some (split (CHR 0x09) ln, k, (g, n, r))"
    using assms(1-6) by (rule line_hit_SomeI)
  have "\<not> snd (merge_feats (parse_feats (split (CHR 0x09) ln ! 5)) (g, n, r))"
    using assms(7-9) by (simp add: merge_feats_unchanged)
  with hit have "line_result L ln = (ln, False)"
    by (auto simp: line_result_def split: prod.splits)
  with hit show ?thesis
    by (simp add: sync_line_out sync_line_updated sync_line_matched)
qed

text \<open>
  C4 on a line whose features agree with the lookup but are not in sorted order: the
  line is kept as it is.
\<close>

theorem C4_sync_conservative_witness:
  "out (sync_line [''XYZ'' \<mapsto> (''f'', ''p'', ''i'')] \<lparr>out = [], matched = 0, updated = 0, debug_hits = []\<rparr>
         (join [CHR 0x09] [''1'', ''ABC'', ''lemma1'', ''NOM'', ''NOM'', ''num=p|gen=f|rat=i'', ''2'', ''MOD'', ''_'', ''surface_plus_bw=XYZ'']))
     = [join [CHR 0x09] [''1'', ''ABC'', ''lemma1'', ''NOM'', ''NOM'', ''num=p|gen=f|rat=i'', ''2'', ''MOD'', ''_'', ''surface_plus_bw=XYZ'']]
   \<and> matched (sync_line [''XYZ'' \<mapsto> (''f'', ''p'', ''i'')] \<lparr>out = [], matched = 0, updated = 0, debug_hits = []\<rparr>
         (join [CHR 0x09] [''1'', ''ABC'', ''lemma1'', ''NOM'', ''NOM'', ''num=p|gen=f|rat=i'', ''2'', ''MOD'', ''_'', ''surface_plus_bw=XYZ''])) = 1
   \<and> updated (sync_line [''XYZ'' \<mapsto> (''f'', ''p'', ''i'')] \<lparr>out = [], matched = 0, updated = 0, debug_hits = []\<rparr>
         (join [CHR 0x09] [''1'', ''ABC'', ''lemma1'', ''NOM'', ''NOM'', ''num=p|gen=f|rat=i'', ''2'', ''MOD'', ''_'', ''surface_plus_bw=XYZ''])) = 0"
proof -
  let ?ln = "join [CHR 0x09] [''1'', ''ABC'', ''lemma1'', ''NOM'', ''NOM'', ''num=p|gen=f|rat=i'', ''2'', ''MOD'', ''_'', ''surface_plus_bw=XYZ'']"
  have h1: "strip ?ln \<noteq> []" by (simp add: strip_def lstrip_def rstrip_def isspace_def)
  have h2: "\<not> startswith ?ln ''#''" by (simp add: startswith_def)
  have h3: "10 \<le> length (split (CHR 0x09) ?ln)" by (simp add: split_def)
  have h4: "choose_conllu_key (parse_misc (split (CHR 0x09) ?ln ! 9)) = Some ''XYZ''"
    by (simp add: split_def parse_misc_def strip_def lstrip_def rstrip_def isspace_def
        add_part_def split1_def choose_conllu_key_def)
  have h5: "''XYZ'' \<noteq> []" by simp
  have h6: "([''XYZ'' \<mapsto> (''f'', ''p'', ''i'')]) ''XYZ'' = Some (''f'', ''p'', ''i'')" by simp
  have h7: "map_of (parse_feats (split (CHR 0x09) ?ln ! 5)) ''gen'' = Some ''f''"
    and h8: "map_of (parse_feats (split (CHR 0x09) ?ln ! 5)) ''num'' = Some ''p''"
    and h9: "map_of (parse_feats (split (CHR 0x09) ?ln ! 5)) ''rat'' = Some ''i''"
    by (simp_all add: split_def parse_feats_def strip_def lstrip_def rstrip_def isspace_def
        add_part_def split1_def)
  from C4_sync_conservative [where L = "[''XYZ'' \<mapsto> (''f'', ''p'', ''i'')]"
      and st = "\<lparr>out = [], matched = 0, updated = 0, debug_hits = []\<rparr>",
      OF h1 h2 h3 h4 h5 h6 h7 h8 h9]
  show ?thesis by simp
qed

subsection \<open>C5: precedence of the lookup keys\<close>

text \<open>
  C5: \<open>choose_conllu_key\<close> returns the value of \<open>surface_plus_bw\<close> whenever the annotation
  map has it, whether or not \<open>surface_form_bw\<close> is there too; the value of
  \<open>surface_form_bw\<close> only when \<open>surface_plus_bw\<close> is absent; and no key when both are
  absent, in which case the loop body appends the line unchanged and counts neither a
  match nor an update.
\<close>

theorem C5_key_precedence:
  "(map_of d ''surface_plus_bw'' = Some v \<longrightarrow> choose_conllu_key d = Some v)
   \<and> (map_of d ''surface_plus_bw'' = None \<and> map_of d ''surface_form_bw'' = Some w
        \<longrightarrow> choose_conllu_key d = Some w)
   \<and> (map_of d ''surface_plus_bw'' = None \<and> map_of d ''surface_form_bw'' = None
        \<longrightarrow> choose_conllu_key d = None)
   \<and> (choose_conllu_key (parse_misc (split (CHR 0x09) ln ! 9)) = None
        \<longrightarrow> out (sync_line L st ln) = out st @ [ln] \<and> matched (sync_line L st ln) = matched st
            \<and> updated (sync_line L st ln) = updated st)"
  using sync_line_pass [OF line_hit_NoneI, of ln L st]
  by (auto simp: choose_conllu_key_def)

text \<open>
  C5 on three annotation maps (both keys, the second key only, neither) and on a line
  whose annotation column has neither key.
\<close>

theorem C5_key_precedence_witness:
  "choose_conllu_key [(''surface_form_bw'', ''B''), (''surface_plus_bw'', ''A'')] = Some ''A''
   \<and> choose_conllu_key [(''surface_form_bw'', ''B'')] = Some ''B''
   \<and> choose_conllu_key [(''bw'', ''ADJ'')] = None
   \<and> out (sync_line [''XYZ'' \<mapsto> (''f'', ''p'', ''i'')] \<lparr>out = [], matched = 0, updated = 0, debug_hits = []\<rparr>
            (join [CHR 0x09] [''1'', ''ABC'', ''lemma1'', ''NOM'', ''NOM'', ''_'', ''2'', ''MOD'', ''_'', ''bw=ADJ'']))
      = [join [CHR 0x09] [''1'', ''ABC'', ''lemma1'', ''NOM'', ''NOM'', ''_'', ''2'', ''MOD'', ''_'', ''bw=ADJ'']]"
proof -
  let ?ln = "join [CHR 0x09] [''1'', ''ABC'', ''lemma1'', ''NOM'', ''NOM'', ''_'', ''2'', ''MOD'', ''_'', ''bw=ADJ'']"
  have 1: "choose_conllu_key [(''surface_form_bw'', ''B''), (''surface_plus_bw'', ''A'')] = Some ''A''"
    using C5_key_precedence [of "[(''surface_form_bw'', ''B''), (''surface_plus_bw'', ''A'')]" "''A''"]
    by simp
  have 2: "choose_conllu_key [(''surface_form_bw'', ''B'')] = Some ''B''"
    using C5_key_precedence [of "[(''surface_form_bw'', ''B'')]" _ "''B''"] by simp
  have 3: "choose_conllu_key [(''bw'', ''ADJ'')] = None"
    using C5_key_precedence [of "[(''bw'', ''ADJ'')]"] by simp
  have "parse_misc (split (CHR 0x09) ?ln ! 9) = [(''bw'', ''ADJ'')]"
    by (simp add: split_def parse_misc_def strip_def lstrip_def rstrip_def isspace_def
        add_part_def split1_def)
  with 3 have "choose_conllu_key (parse_misc (split (CHR 0x09) ?ln ! 9)) = None" by simp
  with C5_key_precedence [of _ _ _ ?ln "[''XYZ'' \<mapsto> (''f'', ''p'', ''i'')]"
      "\<lparr>out = [], matched = 0, updated = 0, debug_hits = []\<rparr>"]
  have 4: "out (sync_line [''XYZ'' \<mapsto> (''f'', ''p'', ''i'')] \<lparr>out = [], matched = 0, updated = 0, debug_hits = []\<rparr> ?ln) = [?ln]"
    by simp
  from 1 2 3 4 show ?thesis by blast
qed

subsection \<open>C6: the keys the lookup builder registers\<close>

text \<open>
  C6, as stated, strips one leading \<open>+\<close> from the transliteration. The code calls
  \<^verbatim>\<open>lstrip("+")\<close>, which removes every leading \<open>+\<close>: for the tag \<open>bw:++k/X\<close> the key
  registered is \<open>k\<close>, and \<open>+k\<close> is not registered.
\<close>

theorem C6_lookup_keys_counterexample:
  "extract_field ''*1.0 bw:++k/X gen:f num:s rat:i'' ''bw'' = Some ''++k/X''
   \<and> build_magold_lookup [''*1.0 bw:++k/X gen:f num:s rat:i''] ''k'' = Some (''f'', ''s'', ''i'')
   \<and> build_magold_lookup [''*1.0 bw:++k/X gen:f num:s rat:i''] ''+k'' = None"
  by code_simp

text \<open>
  C6, amended: for every retained analysis line (after trimming: not empty, starting with
  \<open>*\<close>) whose \<open>bw\<close> tag is present, let \<open>tok\<close> be the text of the \<open>bw\<close> value before its
  first \<open>/\<close> with all its leading \<open>+\<close> removed. If gender, number and rationality are
  each present and none is \<open>na\<close>, and \<open>tok\<close> is not empty, the lookup maps \<open>tok\<close> to the
  triple after the line. Whatever key the line changes in the lookup is \<open>tok\<close> or the
  \<open>diac\<close> value, is not empty, and is set to the triple of a line whose gender, number and
  rationality are each present and not \<open>na\<close>.
\<close>

theorem C6_lookup_keys:
  assumes "line = strip raw" and "line \<noteq> []" and "startswith line ''*''"
    and "extract_field line ''bw'' = Some bw"
    and "bw = replicate j CHR ''+'' @ tok @ rest"
    and "CHR ''/'' \<notin> set tok" and "take 1 tok \<noteq> ''+''" and "rest = [] \<or> take 1 rest = ''/''"
  shows "(\<forall>g n r. extract_field line ''gen'' = Some g \<and> extract_field line ''num'' = Some n
            \<and> extract_field line ''rat'' = Some r
            \<and> g \<noteq> ''na'' \<and> n \<noteq> ''na'' \<and> r \<noteq> ''na'' \<and> tok \<noteq> []
          \<longrightarrow> magold_line lookup raw tok = Some (g, n, r))
       \<and> (\<forall>k. magold_line lookup raw k \<noteq> lookup k
          \<longrightarrow> (k = tok \<or> extract_field line ''diac'' = Some k) \<and> k \<noteq> []
              \<and> (\<exists>g n r. extract_field line ''gen'' = Some g \<and> extract_field line ''num'' = Some n
                    \<and> extract_field line ''rat'' = Some r
                    \<and> g \<noteq> ''na'' \<and> n \<noteq> ''na'' \<and> r \<noteq> ''na''
                    \<and> magold_line lookup raw k = Some (g, n, r)))"
proof -
  have tok: "lstrip_chars ''+'' (split1 CHR ''/'' bw ! 0) = tok"
    using assms(5-8) by (rule bw_tok_eq)
  have bw: "bw \<noteq> [] \<or> tok = []" using assms(5) by auto
  show ?thesis
    using assms(1-4) tok bw
    by (auto simp: magold_line_def Let_def split: option.splits if_splits)
qed

text \<open>C6 on the analysis line of the end-to-end example, with one leading \<open>+\<close> on its \<open>bw\<close> value.\<close>

theorem C6_lookup_keys_witness:
  "extract_field ''*1.0 diac:XYZ bw:+ADJ/XYZ+a gen:f num:p rat:i'' ''bw'' = Some ''+ADJ/XYZ+a''
   \<and> magold_line Map.empty ''*1.0 diac:XYZ bw:+ADJ/XYZ+a gen:f num:p rat:i'' ''ADJ''
       = Some (''f'', ''p'', ''i'')"
proof -
  let ?raw = "''*1.0 diac:XYZ bw:+ADJ/XYZ+a gen:f num:p rat:i''"
  have st: "?raw = strip ?raw" by (simp add: strip_def lstrip_def rstrip_def isspace_def)
  have ne: "?raw \<noteq> []" by simp
  have star: "startswith ?raw ''*''" by (simp add: startswith_def)
  have bw: "extract_field ?raw ''bw'' = Some ''+ADJ/XYZ+a''" by code_simp
  have gen: "extract_field ?raw ''gen'' = Some ''f''" by code_simp
  have num: "extract_field ?raw ''num'' = Some ''p''" by code_simp
  have rat: "extract_field ?raw ''rat'' = Some ''i''" by code_simp
  have dec: "''+ADJ/XYZ+a'' = replicate 1 CHR ''+'' @ ''ADJ'' @ ''/XYZ+a''" by simp
  have "\<forall>g n r. extract_field ?raw ''gen'' = Some g \<and> extract_field ?raw ''num'' = Some n
            \<and> extract_field ?raw ''rat'' = Some r
            \<and> g \<noteq> ''na'' \<and> n \<noteq> ''na'' \<and> r \<noteq> ''na'' \<and> ''ADJ'' \<noteq> []
          \<longrightarrow> magold_line Map.empty ?raw ''ADJ'' = Some (g, n, r)"
    using C6_lookup_keys [OF st ne star bw dec, of Map.empty] by simp
  with gen num rat have "magold_line Map.empty ?raw ''ADJ'' = Some (''f'', ''p'', ''i'')"
    by simp
  with bw show ?thesis by simp
qed

subsection \<open>C7: what every emitted pair satisfies\<close>

text \<open>
  C7: when the run over the lines of the input file ends without an error, every row it
  emits comes from an entry \<open>(dep_id, dep)\<close> of the id-to-token mapping of some sentence
  (the \<open>j+1\<close>-th) such that the relation label of \<open>dep\<close> is \<open>MOD\<close>, \<open>dep\<close> satisfies
  \<open>is_adj_token\<close>, the head id of \<open>dep\<close> is a key of the same mapping, and the token
  stored under it satisfies \<open>is_noun_like\<close>; the row is built from these two tokens.
  (A run that raises emits nothing.)
\<close>

theorem C7_pairs:
  assumes "extract_pairs lines = Inr rows" and "r \<in> set rows"
  shows "\<exists>j tokens dep_id dep head_tok.
           j < length (read_conllu_sentences lines)
           \<and> add_token_lines [] (read_conllu_sentences lines ! j) = Inr tokens
           \<and> (dep_id, dep) \<in> set tokens
           \<and> deprel dep = ''MOD''
           \<and> is_adj_token (upos dep) (xpos dep) (misc dep)
           \<and> map_of tokens (head dep) = Some head_tok
           \<and> is_noun_like (misc head_tok) (upos head_tok) (xpos head_tok)
           \<and> r = make_row (j + 1) dep_id dep (head dep) head_tok"
proof -
  from assms obtain j tokens where j: "j < length (read_conllu_sentences lines)"
    and tk: "add_token_lines [] (read_conllu_sentences lines ! j) = Inr tokens"
    and r: "r \<in> set (sentence_rows (1 + j) tokens)"
    using main_loop_mem [of 1 "[]" "read_conllu_sentences lines" rows r]
    by (auto simp: extract_pairs_def)
  from r obtain dep_id dep where mem: "(dep_id, dep) \<in> set tokens"
    and "r \<in> set (dep_rows (1 + j) tokens (dep_id, dep))"
    by (auto simp: sentence_rows_def)
  with dep_rows_mem [of r "1 + j" tokens dep_id dep] j tk show ?thesis
    by (simp add: add.commute) blast
qed

text \<open>
  C7 on the two-token sentence of the end-to-end example, with a \<open>bw\<close> annotation on the
  adjective: the run emits one row, to which the theorem applies.
\<close>

theorem C7_pairs_witness:
  "extract_pairs
     [join [CHR 0x09] [''1'', ''ABC'', ''lemma1'', ''NOM'', ''NOM'', ''gen=f|num=p|rat=i'', ''2'', ''MOD'', ''_'', ''surface_plus_bw=XYZ|bw=ADJ''],
      join [CHR 0x09] [''2'', ''DEF'', ''lemma2'', ''NOM'', ''NOM'', ''_'', ''0'', ''ROOT'', ''_'', ''bw=NOUN_head'']]
   = Inr [\<lparr>sent_idx = ''1'', adj_id = ''1'', adj_form = ''ABC'', adj_lemma = ''lemma1'',
        adj_feats = ''gen=f|num=p|rat=i'', adj_misc = ''surface_plus_bw=XYZ|bw=ADJ'',
        head_id = ''2'', head_form = ''DEF'', head_lemma = ''lemma2'', head_feats = ''_'',
        head_misc = ''bw=NOUN_head'', row_deprel = ''MOD''\<rparr>]
   \<and> (\<exists>j tokens dep_id dep head_tok.
         j < length (read_conllu_sentences
              [join [CHR 0x09] [''1'', ''ABC'', ''lemma1'', ''NOM'', ''NOM'', ''gen=f|num=p|rat=i'', ''2'', ''MOD'', ''_'', ''surface_plus_bw=XYZ|bw=ADJ''],
               join [CHR 0x09] [''2'', ''DEF'', ''lemma2'', ''NOM'', ''NOM'', ''_'', ''0'', ''ROOT'', ''_'', ''bw=NOUN_head'']])
         \<and> add_token_lines [] (read_conllu_sentences
              [join [CHR 0x09] [''1'', ''ABC'', ''lemma1'', ''NOM'', ''NOM'', ''gen=f|num=p|rat=i'', ''2'', ''MOD'', ''_'', ''surface_plus_bw=XYZ|bw=ADJ''],
               join [CHR 0x09] [''2'', ''DEF'', ''lemma2'', ''NOM'', ''NOM'', ''_'', ''0'', ''ROOT'', ''_'', ''bw=NOUN_head'']] ! j) = Inr tokens
         \<and> (dep_id, dep) \<in> set tokens
         \<and> deprel dep = ''MOD''
         \<and> is_adj_token (upos dep) (xpos dep) (misc dep)
         \<and> map_of tokens (head dep) = Some head_tok
         \<and> is_noun_like (misc head_tok) (upos head_tok) (xpos head_tok)
         \<and> \<lparr>sent_idx = ''1'', adj_id = ''1'', adj_form = ''ABC'', adj_lemma = ''lemma1'',
        adj_feats = ''gen=f|num=p|rat=i'', adj_misc = ''surface_plus_bw=XYZ|bw=ADJ'',
        head_id = ''2'', head_form = ''DEF'', head_lemma = ''lemma2'', head_feats = ''_'',
        head_misc = ''bw=NOUN_head'', row_deprel = ''MOD''\<rparr>
           = make_row (j + 1) dep_id dep (head dep) head_tok)"
proof -
  let ?lines = "[join [CHR 0x09] [''1'', ''ABC'', ''lemma1'', ''NOM'', ''NOM'', ''gen=f|num=p|rat=i'', ''2'', ''MOD'', ''_'', ''surface_plus_bw=XYZ|bw=ADJ''],
      join [CHR 0x09] [''2'', ''DEF'', ''lemma2'', ''NOM'', ''NOM'', ''_'', ''0'', ''ROOT'', ''_'', ''bw=NOUN_head'']]"
  let ?row = "\<lparr>sent_idx = ''1'', adj_id = ''1'', adj_form = ''ABC'', adj_lemma = ''lemma1'',
        adj_feats = ''gen=f|num=p|rat=i'', adj_misc = ''surface_plus_bw=XYZ|bw=ADJ'',
        head_id = ''2'', head_form = ''DEF'', head_lemma = ''lemma2'', head_feats = ''_'',
        head_misc = ''bw=NOUN_head'', row_deprel = ''MOD''\<rparr>"
  have e: "extract_pairs ?lines = Inr [?row]" by code_simp
  have m: "?row \<in> set [?row]" by simp
  from e C7_pairs [OF e m] show ?thesis by (rule conjI)
qed

subsection \<open>C8: keys of the feature map after synchronization\<close>

text \<open>
  C8, as stated, speaks of the feature map of every line the synchronizer has processed.
  The line below has the feature column \<open>x=1| b=2\<close>, whose second key is \<open>b\<close> with a
  leading space, and its key is found in a lookup the builder made. The synchronizer
  writes the column sorted, with that key first; read back, the column is stripped and
  the key is \<open>b\<close>, which is neither a key of the input line nor one of \<open>gen\<close>, \<open>num\<close>,
  \<open>rat\<close>.
\<close>

theorem C8_sync_feature_keys_counterexample:
  "sync_conllu_with_magold
     [join [CHR 0x09] [''1'', ''w'', ''_'', ''_'', ''_'', ''x=1| b=2'', ''0'', ''_'', ''_'', ''surface_plus_bw=k'']]
     (build_magold_lookup [''*1.0 bw:k/X gen:f num:p rat:i''])
   = ([join [CHR 0x09] [''1'', ''w'', ''_'', ''_'', ''_'', '' b=2|gen=f|num=p|rat=i|x=1'', ''0'', ''_'', ''_'', ''surface_plus_bw=k'']], 1, 1, [])
   \<and> parse_feats (split (CHR 0x09) (join [CHR 0x09] [''1'', ''w'', ''_'', ''_'', ''_'', ''x=1| b=2'', ''0'', ''_'', ''_'', ''surface_plus_bw=k'']) ! 5)
     = [(''x'', ''1''), ('' b'', ''2'')]
   \<and> parse_feats (split (CHR 0x09) (join [CHR 0x09] [''1'', ''w'', ''_'', ''_'', ''_'', '' b=2|gen=f|num=p|rat=i|x=1'', ''0'', ''_'', ''_'', ''surface_plus_bw=k'']) ! 5)
     = [(''b'', ''2''), (''gen'', ''f''), (''num'', ''p''), (''rat'', ''i''), (''x'', ''1'')]
   \<and> map_of (parse_feats (split (CHR 0x09) (join [CHR 0x09] [''1'', ''w'', ''_'', ''_'', ''_'', ''x=1| b=2'', ''0'', ''_'', ''_'', ''surface_plus_bw=k'']) ! 5)) ''b'' = None"
  by code_simp

text \<open>
  C8, amended: for every lookup whose values contain no \<open>|\<close> and no tab, and every input
  line with ten fields at least whose parsed feature map has no key beginning with
  whitespace and no value ending with whitespace, the feature map parsed from the line
  the synchronizer writes for it has no key beyond those of the input line's feature map
  and \<open>gen\<close>, \<open>num\<close>, \<open>rat\<close>, and gives every other key the value it had.
\<close>

theorem C8_sync_feature_keys:
  assumes "\<forall>k g n r. L k = Some (g, n, r) \<longrightarrow>
      CHR 0x09 \<notin> set g \<and> CHR 0x09 \<notin> set n \<and> CHR 0x09 \<notin> set r
      \<and> CHR ''|'' \<notin> set g \<and> CHR ''|'' \<notin> set n \<and> CHR ''|'' \<notin> set r"
  shows "case sync_conllu_with_magold conllu_lines L of
           (out_lines, m, u, d) \<Rightarrow>
             (\<forall>i<length conllu_lines.
                10 \<le> length (split (CHR 0x09) (conllu_lines ! i))
                \<and> (\<forall>(k, v)\<in>set (parse_feats (split (CHR 0x09) (conllu_lines ! i) ! 5)).
                      lstrip k = k \<and> rstrip v = v)
                \<longrightarrow> fst ` set (parse_feats (split (CHR 0x09) (out_lines ! i) ! 5))
                      \<subseteq> fst ` set (parse_feats (split (CHR 0x09) (conllu_lines ! i) ! 5))
                         \<union> {''gen'', ''num'', ''rat''}
                    \<and> (\<forall>k. k \<notin> {''gen'', ''num'', ''rat''} \<longrightarrow>
                          map_of (parse_feats (split (CHR 0x09) (out_lines ! i) ! 5)) k
                          = map_of (parse_feats (split (CHR 0x09) (conllu_lines ! i) ! 5)) k))"
  using line_result_feats [OF assms]
  by (simp add: sync_conllu_with_magold_def Let_def sync_loop_out)

text \<open>
  C8 on a line with the features \<open>gen=m|case=n\<close>: the synchronizer writes
  \<open>case=n|gen=f|num=p|rat=i\<close>, which has the keys of the input and \<open>num\<close>, \<open>rat\<close>, and
  keeps \<open>case\<close>.
\<close>

theorem C8_sync_feature_keys_witness:
  "sync_conllu_with_magold
     [join [CHR 0x09] [''1'', ''ABC'', ''lemma1'', ''NOM'', ''NOM'', ''gen=m|case=n'', ''2'', ''MOD'', ''_'', ''surface_plus_bw=XYZ'']]
     [''XYZ'' \<mapsto> (''f'', ''p'', ''i'')]
   = ([join [CHR 0x09] [''1'', ''ABC'', ''lemma1'', ''NOM'', ''NOM'', ''case=n|gen=f|num=p|rat=i'', ''2'', ''MOD'', ''_'', ''surface_plus_bw=XYZ'']], 1, 1, [])
   \<and> fst ` set (parse_feats (split (CHR 0x09) (join [CHR 0x09] [''1'', ''ABC'', ''lemma1'', ''NOM'', ''NOM'', ''case=n|gen=f|num=p|rat=i'', ''2'', ''MOD'', ''_'', ''surface_plus_bw=XYZ'']) ! 5))
      \<subseteq> fst ` set (parse_feats (split (CHR 0x09) (join [CHR 0x09] [''1'', ''ABC'', ''lemma1'', ''NOM'', ''NOM'', ''gen=m|case=n'', ''2'', ''MOD'', ''_'', ''surface_plus_bw=XYZ'']) ! 5))
         \<union> {''gen'', ''num'', ''rat''}
   \<and> map_of (parse_feats (split (CHR 0x09) (join [CHR 0x09] [''1'', ''ABC'', ''lemma1'', ''NOM'', ''NOM'', ''case=n|gen=f|num=p|rat=i'', ''2'', ''MOD'', ''_'', ''surface_plus_bw=XYZ'']) ! 5)) ''case''
      = map_of (parse_feats (split (CHR 0x09) (join [CHR 0x09] [''1'', ''ABC'', ''lemma1'', ''NOM'', ''NOM'', ''gen=m|case=n'', ''2'', ''MOD'', ''_'', ''surface_plus_bw=XYZ'']) ! 5)) ''case''"
proof -
  let ?ln = "join [CHR 0x09] [''1'', ''ABC'', ''lemma1'', ''NOM'', ''NOM'', ''gen=m|case=n'', ''2'', ''MOD'', ''_'', ''surface_plus_bw=XYZ'']"
  let ?L = "[''XYZ'' \<mapsto> (''f'', ''p'', ''i'')]"
  have wf: "\<forall>k g n r. ?L k = Some (g, n, r) \<longrightarrow>
      CHR 0x09 \<notin> set g \<and> CHR 0x09 \<notin> set n \<and> CHR 0x09 \<notin> set r
      \<and> CHR ''|'' \<notin> set g \<and> CHR ''|'' \<notin> set n \<and> CHR ''|'' \<notin> set r"
    by simp
  have run: "sync_conllu_with_magold [?ln] ?L
      = ([join [CHR 0x09] [''1'', ''ABC'', ''lemma1'', ''NOM'', ''NOM'', ''case=n|gen=f|num=p|rat=i'', ''2'', ''MOD'', ''_'', ''surface_plus_bw=XYZ'']], 1, 1, [])"
    by code_simp
  have len: "10 \<le> length (split (CHR 0x09) ?ln)" by (simp add: split_def)
  have clean: "\<forall>(k, v)\<in>set (parse_feats (split (CHR 0x09) ?ln ! 5)). lstrip k = k \<and> rstrip v = v"
    by (simp add: split_def parse_feats_def strip_def lstrip_def rstrip_def isspace_def
        add_part_def split1_def)
  have nc: "''case'' \<notin> {''gen'', ''num'', ''rat''}" by simp
  from run len clean nc
    C8_sync_feature_keys [where L = "?L" and conllu_lines = "[?ln]", OF wf]
  show ?thesis by simp
qed

subsection \<open>C9: the frame of the synchronizer\<close>

text \<open>
  C9 is stated for every lookup. A lookup value with a tab in it is written into
  the feature column as it is, so the line gains a field and its later fields move:
  below, the seventh field of the input is \<open>0\<close> and the seventh field of the output is
  \<open>b|num=s|rat=i\<close>.
\<close>

theorem C9_sync_frame_counterexample:
  "sync_conllu_with_magold
     [join [CHR 0x09] [''1'', ''w'', ''_'', ''_'', ''_'', ''_'', ''0'', ''_'', ''_'', ''surface_plus_bw=k'']]
     [''k'' \<mapsto> (''a'' @ [CHR 0x09] @ ''b'', ''s'', ''i'')]
   = ([join [CHR 0x09] [''1'', ''w'', ''_'', ''_'', ''_'', ''gen=a'', ''b|num=s|rat=i'', ''0'', ''_'', ''_'', ''surface_plus_bw=k'']], 1, 1, [])
   \<and> split (CHR 0x09) (join [CHR 0x09] [''1'', ''w'', ''_'', ''_'', ''_'', ''_'', ''0'', ''_'', ''_'', ''surface_plus_bw=k'']) ! 6 = ''0''
   \<and> split (CHR 0x09) (join [CHR 0x09] [''1'', ''w'', ''_'', ''_'', ''_'', ''gen=a'', ''b|num=s|rat=i'', ''0'', ''_'', ''_'', ''surface_plus_bw=k'']) ! 6 = ''b|num=s|rat=i''"
  by code_simp

text \<open>
  C9, amended: for every list of input lines and every lookup whose values contain no
  tab, the output has the length of the input, and the i-th output line is the i-th
  input line or has the fields of the i-th input line (ten at least) with only the
  sixth replaced.
\<close>

theorem C9_sync_frame:
  assumes "\<forall>k g n r. L k = Some (g, n, r) \<longrightarrow>
      CHR 0x09 \<notin> set g \<and> CHR 0x09 \<notin> set n \<and> CHR 0x09 \<notin> set r"
  shows "case sync_conllu_with_magold conllu_lines L of
           (out_lines, m, u, d) \<Rightarrow>
             length out_lines = length conllu_lines
             \<and> (\<forall>i<length conllu_lines.
                  out_lines ! i = conllu_lines ! i
                  \<or> (\<exists>s. 10 \<le> length (split (CHR 0x09) (conllu_lines ! i))
                         \<and> split (CHR 0x09) (out_lines ! i) = (split (CHR 0x09) (conllu_lines ! i))[5 := s]))"
  using line_result_frame [OF assms]
  by (simp add: sync_conllu_with_magold_def Let_def sync_loop_out)

text \<open>C9 on the two-token sentence of the end-to-end example.\<close>

theorem C9_sync_frame_witness:
  "case sync_conllu_with_magold
          [join [CHR 0x09] [''1'', ''ABC'', ''lemma1'', ''NOM'', ''NOM'', ''gen=m|num=s'', ''2'', ''MOD'', ''_'', ''surface_plus_bw=XYZ''],
           join [CHR 0x09] [''2'', ''DEF'', ''lemma2'', ''NOM'', ''NOM'', ''_'', ''0'', ''ROOT'', ''_'', ''bw=NOUN_head'']]
          [''XYZ'' \<mapsto> (''f'', ''p'', ''i'')] of
     (out_lines, m, u, d) \<Rightarrow>
       length out_lines = length
          [join [CHR 0x09] [''1'', ''ABC'', ''lemma1'', ''NOM'', ''NOM'', ''gen=m|num=s'', ''2'', ''MOD'', ''_'', ''surface_plus_bw=XYZ''],
           join [CHR 0x09] [''2'', ''DEF'', ''lemma2'', ''NOM'', ''NOM'', ''_'', ''0'', ''ROOT'', ''_'', ''bw=NOUN_head'']]
       \<and> (\<forall>i<length [join [CHR 0x09] [''1'', ''ABC'', ''lemma1'', ''NOM'', ''NOM'', ''gen=m|num=s'', ''2'', ''MOD'', ''_'', ''surface_plus_bw=XYZ''],
           join [CHR 0x09] [''2'', ''DEF'', ''lemma2'', ''NOM'', ''NOM'', ''_'', ''0'', ''ROOT'', ''_'', ''bw=NOUN_head'']].
            out_lines ! i = [join [CHR 0x09] [''1'', ''ABC'', ''lemma1'', ''NOM'', ''NOM'', ''gen=m|num=s'', ''2'', ''MOD'', ''_'', ''surface_plus_bw=XYZ''],
              join [CHR 0x09] [''2'', ''DEF'', ''lemma2'', ''NOM'', ''NOM'', ''_'', ''0'', ''ROOT'', ''_'', ''bw=NOUN_head'']] ! i
            \<or> (\<exists>s. 10 \<le> length (split (CHR 0x09) ([join [CHR 0x09] [''1'', ''ABC'', ''lemma1'', ''NOM'', ''NOM'', ''gen=m|num=s'', ''2'', ''MOD'', ''_'', ''surface_plus_bw=XYZ''],
              join [CHR 0x09] [''2'', ''DEF'', ''lemma2'', ''NOM'', ''NOM'', ''_'', ''0'', ''ROOT'', ''_'', ''bw=NOUN_head'']] ! i))
                   \<and> split (CHR 0x09) (out_lines ! i) = (split (CHR 0x09) ([join [CHR 0x09] [''1'', ''ABC'', ''lemma1'', ''NOM'', ''NOM'', ''gen=m|num=s'', ''2'', ''MOD'', ''_'', ''surface_plus_bw=XYZ''],
              join [CHR 0x09] [''2'', ''DEF'', ''lemma2'', ''NOM'', ''NOM'', ''_'', ''0'', ''ROOT'', ''_'', ''bw=NOUN_head'']] ! i))[5 := s]))"
  by (rule C9_sync_frame) simp

subsection \<open>C10: tokens whose head column is no number\<close>

text \<open>
  C10, as stated, says that 0 is never a key of a sentence's mapping. Nothing in the
  code keeps a token line from having the id \<open>0\<close>: in the sentence below the adjective
  has \<open>_\<close> in its head column, so its head id is 0, the noun has the id \<open>0\<close>, and the
  pair is emitted.
\<close>

theorem C10_head_zero_counterexample:
  "split (CHR 0x09) (join [CHR 0x09] [''1'', ''A'', ''_'', ''_'', ''_'', ''_'', ''_'', ''MOD'', ''_'', ''bw=ADJ'']) ! 6 = ''_''
   \<and> parse_token_line (join [CHR 0x09] [''1'', ''A'', ''_'', ''_'', ''_'', ''_'', ''_'', ''MOD'', ''_'', ''bw=ADJ''])
     = Inr (Some \<lparr>tok_id = 1, form = ''A'', tok_lemma = ''_'', upos = ''_'', xpos = ''_'',
        feats_raw = ''_'', head = 0, deprel = ''MOD'', deps = ''_'', misc_raw = ''bw=ADJ''\<rparr>)
   \<and> extract_pairs
        [join [CHR 0x09] [''0'', ''N'', ''_'', ''_'', ''_'', ''_'', ''_'', ''_'', ''_'', ''bw=NOUN''],
         join [CHR 0x09] [''1'', ''A'', ''_'', ''_'', ''_'', ''_'', ''_'', ''MOD'', ''_'', ''bw=ADJ'']]
     = Inr [\<lparr>sent_idx = ''1'', adj_id = ''1'', adj_form = ''A'', adj_lemma = ''_'',
        adj_feats = ''_'', adj_misc = ''bw=ADJ'', head_id = ''0'', head_form = ''N'',
        head_lemma = ''_'', head_feats = ''_'', head_misc = ''bw=NOUN'', row_deprel = ''MOD''\<rparr>]"
  by code_simp

text \<open>
  C10, amended: for every line that \<open>parse_token_line\<close> parses into a token, if the head
  column (seventh field) is not a non-empty string of decimal digits, the token's head id
  is 0; and in a sentence none of whose token lines has an id that \<open>int\<close> reads as 0, the
  key 0 is not in the id-to-token mapping, so a token whose head id is 0 yields no pair
  as a dependent.
\<close>

theorem C10_head_zero:
  "(parse_token_line line = Inr (Some t)
      \<and> \<not> (split (CHR 0x09) line ! 6 \<noteq> [] \<and> list_all isdecimal (split (CHR 0x09) line ! 6))
     \<longrightarrow> head t = 0)
   \<and> (add_token_lines [] sent_lines = Inr tokens
      \<and> (\<forall>ln\<in>set sent_lines. \<forall>t'. parse_token_line ln = Inr (Some t') \<longrightarrow> tok_id t' \<noteq> 0)
      \<and> head dep = 0
     \<longrightarrow> dep_rows sent_i tokens (dep_id, dep) = [])"
  using parse_token_line_head [of line t] add_token_lines_keys [of sent_lines tokens 0]
    dep_rows_no_head [of tokens dep sent_i dep_id]
  by auto

text \<open>
  C10 on a sentence of two tokens with the ids 2 and 1, where the head column of token 1
  is \<open>_\<close>: its head id is 0 and it yields no pair.
\<close>

theorem C10_head_zero_witness:
  "parse_token_line (join [CHR 0x09] [''1'', ''A'', ''_'', ''_'', ''_'', ''_'', ''_'', ''MOD'', ''_'', ''bw=ADJ''])
     = Inr (Some \<lparr>tok_id = 1, form = ''A'', tok_lemma = ''_'', upos = ''_'', xpos = ''_'',
        feats_raw = ''_'', head = 0, deprel = ''MOD'', deps = ''_'', misc_raw = ''bw=ADJ''\<rparr>)
   \<and> head \<lparr>tok_id = 1, form = ''A'', tok_lemma = ''_'', upos = ''_'', xpos = ''_'',
        feats_raw = ''_'', head = 0, deprel = ''MOD'', deps = ''_'', misc_raw = ''bw=ADJ''\<rparr> = 0
   \<and> add_token_lines []
        [join [CHR 0x09] [''2'', ''N'', ''_'', ''_'', ''_'', ''_'', ''0'', ''ROOT'', ''_'', ''bw=NOUN''],
         join [CHR 0x09] [''1'', ''A'', ''_'', ''_'', ''_'', ''_'', ''_'', ''MOD'', ''_'', ''bw=ADJ'']]
     = Inr [(2, \<lparr>tok_id = 2, form = ''N'', tok_lemma = ''_'', upos = ''_'', xpos = ''_'',
        feats_raw = ''_'', head = 0, deprel = ''ROOT'', deps = ''_'', misc_raw = ''bw=NOUN'',
        feats = [], misc = [(''bw'', ''NOUN'')]\<rparr>),
            (1, \<lparr>tok_id = 1, form = ''A'', tok_lemma = ''_'', upos = ''_'', xpos = ''_'',
        feats_raw = ''_'', head = 0, deprel = ''MOD'', deps = ''_'', misc_raw = ''bw=ADJ'',
        feats = [], misc = [(''bw'', ''ADJ'')]\<rparr>)]
   \<and> dep_rows 1
        [(2, \<lparr>tok_id = 2, form = ''N'', tok_lemma = ''_'', upos = ''_'', xpos = ''_'',
        feats_raw = ''_'', head = 0, deprel = ''ROOT'', deps = ''_'', misc_raw = ''bw=NOUN'',
        feats = [], misc = [(''bw'', ''NOUN'')]\<rparr>),
         (1, \<lparr>tok_id = 1, form = ''A'', tok_lemma = ''_'', upos = ''_'', xpos = ''_'',
        feats_raw = ''_'', head = 0, deprel = ''MOD'', deps = ''_'', misc_raw = ''bw=ADJ'',
        feats = [], misc = [(''bw'', ''ADJ'')]\<rparr>)]
        (1, \<lparr>tok_id = 1, form = ''A'', tok_lemma = ''_'', upos = ''_'', xpos = ''_'',
        feats_raw = ''_'', head = 0, deprel = ''MOD'', deps = ''_'', misc_raw = ''bw=ADJ'',
        feats = [], misc = [(''bw'', ''ADJ'')]\<rparr>) = []"
proof -
  let ?l1 = "join [CHR 0x09] [''1'', ''A'', ''_'', ''_'', ''_'', ''_'', ''_'', ''MOD'', ''_'', ''bw=ADJ'']"
  let ?l2 = "join [CHR 0x09] [''2'', ''N'', ''_'', ''_'', ''_'', ''_'', ''0'', ''ROOT'', ''_'', ''bw=NOUN'']"
  let ?T1 = "\<lparr>tok_id = 1, form = ''A'', tok_lemma = ''_'', upos = ''_'', xpos = ''_'',
        feats_raw = ''_'', head = 0, deprel = ''MOD'', deps = ''_'', misc_raw = ''bw=ADJ''\<rparr>"
  let ?T2 = "\<lparr>tok_id = 2, form = ''N'', tok_lemma = ''_'', upos = ''_'', xpos = ''_'',
        feats_raw = ''_'', head = 0, deprel = ''ROOT'', deps = ''_'', misc_raw = ''bw=NOUN''\<rparr>"
  let ?W1 = "\<lparr>tok_id = 1, form = ''A'', tok_lemma = ''_'', upos = ''_'', xpos = ''_'',
        feats_raw = ''_'', head = 0, deprel = ''MOD'', deps = ''_'', misc_raw = ''bw=ADJ'',
        feats = [], misc = [(''bw'', ''ADJ'')]\<rparr>"
  let ?W2 = "\<lparr>tok_id = 2, form = ''N'', tok_lemma = ''_'', upos = ''_'', xpos = ''_'',
        feats_raw = ''_'', head = 0, deprel = ''ROOT'', deps = ''_'', misc_raw = ''bw=NOUN'',
        feats = [], misc = [(''bw'', ''NOUN'')]\<rparr>"
  have p1: "parse_token_line ?l1 = Inr (Some ?T1)" by code_simp
  have p2: "parse_token_line ?l2 = Inr (Some ?T2)" by code_simp
  have col: "\<not> (split (CHR 0x09) ?l1 ! 6 \<noteq> [] \<and> list_all isdecimal (split (CHR 0x09) ?l1 ! 6))"
    by (simp add: split_def isdecimal_def)
  have tk: "add_token_lines [] [?l2, ?l1] = Inr [(2, ?W2), (1, ?W1)]" by code_simp
  have ids: "\<forall>ln\<in>set [?l2, ?l1]. \<forall>t'. parse_token_line ln = Inr (Some t') \<longrightarrow> tok_id t' \<noteq> 0"
    using p1 p2 by auto
  have h: "head ?W1 = 0" by simp
  from C10_head_zero [of ?l1 ?T1 "[?l2, ?l1]" "[(2, ?W2), (1, ?W1)]" ?W1 1 1] p1 col tk ids h
  have "head ?T1 = 0" and "dep_rows 1 [(2, ?W2), (1, ?W1)] (1, ?W1) = []"
    by blast+
  with p1 tk show ?thesis by blast
qed

end
